theory Spec2Isabelle
  imports Complex_Main
begin

text \<open>
  The floor-plan geometry engine of the front end: the polygon normalizer, the shoelace
  area calculator, the viewport fitter and the vertex editor of \<open>FloorPlanEditor\<close>, and
  the vertical placement of room shells in \<open>FloorPlan3D\<close>. Each function of the source is
  a function here, with the source's names; loops are recursive functions, React state is
  passed explicitly, a thrown \<open>TypeError\<close> is the left injection of a sum.
\<close>

section \<open>JavaScript numbers\<close>

text \<open>
  A JavaScript number is NaN, an infinity or a finite value; \<open>-0\<close> is not told apart from
  \<open>0\<close> (its sign only shows when something is divided by it). \<open>jadd\<close>, \<open>jsub\<close>, \<open>jmul\<close>
  and \<open>jdiv\<close> are the arithmetic operators with the exact result on finite operands; the
  operators that round the result to a double, \<open>fadd\<close>, \<open>fsub\<close>, \<open>fmul\<close> and \<open>fdiv\<close>, are
  defined in the next section. All of them follow IEEE 754 on the special values: NaN
  absorbs everything, \<open>Infinity - Infinity\<close> and \<open>0 * Infinity\<close> are NaN, a nonzero finite
  number divided by 0 is an infinity, and every comparison with NaN is false.
\<close>

datatype jsnum = NaN | PInf | NInf | Fin real

fun jneg :: "jsnum \<Rightarrow> jsnum" where
  "jneg NaN = NaN"
| "jneg PInf = NInf"
| "jneg NInf = PInf"
| "jneg (Fin a) = Fin (- a)"

fun jadd :: "jsnum \<Rightarrow> jsnum \<Rightarrow> jsnum" where
  "jadd NaN _ = NaN"
| "jadd _ NaN = NaN"
| "jadd (Fin a) (Fin b) = Fin (a + b)"
| "jadd PInf NInf = NaN"
| "jadd NInf PInf = NaN"
| "jadd PInf _ = PInf"
| "jadd _ PInf = PInf"
| "jadd NInf _ = NInf"
| "jadd _ NInf = NInf"

definition jsub :: "jsnum \<Rightarrow> jsnum \<Rightarrow> jsnum" where
  "jsub a b = jadd a (jneg b)"

fun jsign_neg :: "jsnum \<Rightarrow> bool" where
  "jsign_neg NInf = True"
| "jsign_neg (Fin a) = (a < 0)"
| "jsign_neg _ = False"

fun jmul :: "jsnum \<Rightarrow> jsnum \<Rightarrow> jsnum" where
  "jmul NaN _ = NaN"
| "jmul _ NaN = NaN"
| "jmul (Fin a) (Fin b) = Fin (a * b)"
| "jmul a b = (if a = Fin 0 \<or> b = Fin 0 then NaN
               else if jsign_neg a = jsign_neg b then PInf else NInf)"

fun jdiv :: "jsnum \<Rightarrow> jsnum \<Rightarrow> jsnum" where
  "jdiv NaN _ = NaN"
| "jdiv _ NaN = NaN"
| "jdiv (Fin a) (Fin b) =
     (if b \<noteq> 0 then Fin (a / b)
      else if a = 0 then NaN else if 0 < a then PInf else NInf)"
| "jdiv (Fin a) _ = Fin 0"
| "jdiv a (Fin b) = (if jsign_neg a = (b < 0) then PInf else NInf)"
| "jdiv _ _ = NaN"

fun jlt :: "jsnum \<Rightarrow> jsnum \<Rightarrow> bool" where
  "jlt NaN _ = False"
| "jlt _ NaN = False"
| "jlt (Fin a) (Fin b) = (a < b)"
| "jlt NInf b = (b \<noteq> NInf)"
| "jlt a PInf = (a \<noteq> PInf)"
| "jlt _ _ = False"

text \<open>\<open>a > b\<close>, \<open>a <= b\<close>, \<open>a === b\<close>, truthiness, \<open>isNaN\<close> and \<open>a || b\<close> on numbers.\<close>

definition jgt :: "jsnum \<Rightarrow> jsnum \<Rightarrow> bool" where
  "jgt a b = jlt b a"

definition jle :: "jsnum \<Rightarrow> jsnum \<Rightarrow> bool" where
  "jle a b = (a \<noteq> NaN \<and> b \<noteq> NaN \<and> \<not> jlt b a)"

definition strict_eq :: "jsnum \<Rightarrow> jsnum \<Rightarrow> bool" where
  "strict_eq a b = (a \<noteq> NaN \<and> a = b)"

definition truthy :: "jsnum \<Rightarrow> bool" where
  "truthy a = (a \<noteq> NaN \<and> a \<noteq> Fin 0)"

definition isNaN :: "jsnum \<Rightarrow> bool" where
  "isNaN a = (a = NaN)"

definition or_else :: "jsnum \<Rightarrow> jsnum \<Rightarrow> jsnum" where
  "or_else a b = (if truthy a then a else b)"

text \<open>
  \<open>Math.round\<close> rounds to the nearest integer, halves upwards: \<open>floor (x + 1/2)\<close>.
  \<open>Math.max\<close> and \<open>Math.min\<close> are NaN as soon as one argument is.
\<close>

fun Math_abs :: "jsnum \<Rightarrow> jsnum" where
  "Math_abs NaN = NaN"
| "Math_abs (Fin a) = Fin \<bar>a\<bar>"
| "Math_abs _ = PInf"

fun Math_sqrt :: "jsnum \<Rightarrow> jsnum" where
  "Math_sqrt (Fin a) = (if a < 0 then NaN else Fin (sqrt a))"
| "Math_sqrt PInf = PInf"
| "Math_sqrt _ = NaN"

fun Math_round :: "jsnum \<Rightarrow> jsnum" where
  "Math_round (Fin a) = Fin (of_int \<lfloor>a + 1 / 2\<rfloor>)"
| "Math_round a = a"

definition Math_max :: "jsnum \<Rightarrow> jsnum \<Rightarrow> jsnum" where
  "Math_max a b = (if a = NaN \<or> b = NaN then NaN else if jlt a b then b else a)"

definition Math_min :: "jsnum \<Rightarrow> jsnum \<Rightarrow> jsnum" where
  "Math_min a b = (if a = NaN \<or> b = NaN then NaN else if jlt b a then b else a)"

section \<open>Double-precision arithmetic\<close>

text \<open>
  The finite JavaScript numbers are the IEEE 754 binary64 values, and an arithmetic
  operation returns the double nearest to the exact result, a tie going to the even
  significand. \<open>to_double\<close> is that rounding. A nonzero real \<open>x\<close> lies in the binade
  \<open>2^e \<le> |x| < 2^(e+1)\<close>; \<open>binade x\<close> is \<open>e\<close>, and \<open>-1022\<close> for the subnormal range
  below \<open>2^(-1022)\<close>. The doubles of that binade are the integer multiples of
  \<open>ulp x = 2^(binade x - 52)\<close>; \<open>nearest x\<close> is the multiple nearest to \<open>x\<close>, and a rounded
  magnitude of \<open>2^1024\<close> or more is an infinity.

  \<open>fadd\<close>, \<open>fsub\<close>, \<open>fmul\<close>, \<open>fdiv\<close> and \<open>fsqrt\<close> are \<open>+\<close>, \<open>-\<close>, \<open>*\<close>, \<open>/\<close> and \<open>Math.sqrt\<close>
  on doubles: the exact operation followed by \<open>to_double\<close> on finite operands, and the
  special-value rules otherwise.
\<close>

definition round_half_even :: "real \<Rightarrow> int" where
  "round_half_even q =
     (let f = \<lfloor>q\<rfloor>; d = q - of_int f
      in if d < 1 / 2 then f else if 1 / 2 < d then f + 1 else if even f then f else f + 1)"

definition binade :: "real \<Rightarrow> int" where
  "binade x = max \<lfloor>log 2 \<bar>x\<bar>\<rfloor> (- 1022)"

definition ulp :: "real \<Rightarrow> real" where
  "ulp x = 2 powi (binade x - 52)"

definition nearest :: "real \<Rightarrow> real" where
  "nearest x = of_int (round_half_even (x / ulp x)) * ulp x"

definition round_pos :: "real \<Rightarrow> jsnum" where
  "round_pos x = (if 2 powi 1024 \<le> nearest x then PInf else Fin (nearest x))"

definition to_double :: "real \<Rightarrow> jsnum" where
  "to_double x =
     (if x = 0 then Fin 0 else if x < 0 then jneg (round_pos (- x)) else round_pos x)"

fun fadd :: "jsnum \<Rightarrow> jsnum \<Rightarrow> jsnum" where
  "fadd (Fin a) (Fin b) = to_double (a + b)"
| "fadd a b = jadd a b"

definition fsub :: "jsnum \<Rightarrow> jsnum \<Rightarrow> jsnum" where
  "fsub a b = fadd a (jneg b)"

fun fmul :: "jsnum \<Rightarrow> jsnum \<Rightarrow> jsnum" where
  "fmul (Fin a) (Fin b) = to_double (a * b)"
| "fmul a b = jmul a b"

fun fdiv :: "jsnum \<Rightarrow> jsnum \<Rightarrow> jsnum" where
  "fdiv (Fin a) (Fin b) = (if b \<noteq> 0 then to_double (a / b) else jdiv (Fin a) (Fin b))"
| "fdiv a b = jdiv a b"

fun fsqrt :: "jsnum \<Rightarrow> jsnum" where
  "fsqrt (Fin a) = (if a < 0 then NaN else to_double (sqrt a))"
| "fsqrt a = Math_sqrt a"

section \<open>Area Calculator\<close>

text \<open>
  \<open>calculatePolygonArea\<close> works on the flattened array \<open>[x0, y0, x1, y1, \<dots>]\<close>. The index
  \<open>j\<close> starts at \<open>points.length - 2\<close>, which is negative on an empty array, so it is an
  integer; \<open>rd\<close> is an array read used in arithmetic: out of range it gives \<open>undefined\<close>,
  which the arithmetic turns into NaN.
\<close>

type_synonym point = "jsnum \<times> jsnum"

definition rd :: "jsnum list \<Rightarrow> int \<Rightarrow> jsnum" where
  "rd points k = (if 0 \<le> k \<and> k < int (length points) then points ! nat k else NaN)"

function area_loop :: "jsnum list \<Rightarrow> nat \<Rightarrow> int \<Rightarrow> jsnum \<Rightarrow> jsnum" where
  "area_loop points i j area =
     (if i < length points
      then area_loop points (i + 2) (int i)
             (jadd area (jmul (jadd (rd points j) (rd points (int i)))
                              (jsub (rd points (j + 1)) (rd points (int i + 1)))))
      else area)"
  by pat_completeness auto
termination
  by (relation "measure (\<lambda>(points, i, j, area). length points - i)") auto

definition calculatePolygonArea :: "jsnum list \<Rightarrow> jsnum" where
  "calculatePolygonArea points =
     Math_abs (jdiv (area_loop points 0 (int (length points) - 2) (Fin 0)) (Fin 2))"

text \<open>
  The same loop with every operation rounded to a double: \<open>calculatePolygonArea_fp\<close> is
  the function as it runs.
\<close>

function area_loop_fp :: "jsnum list \<Rightarrow> nat \<Rightarrow> int \<Rightarrow> jsnum \<Rightarrow> jsnum" where
  "area_loop_fp points i j area =
     (if i < length points
      then area_loop_fp points (i + 2) (int i)
             (fadd area (fmul (fadd (rd points j) (rd points (int i)))
                              (fsub (rd points (j + 1)) (rd points (int i + 1)))))
      else area)"
  by pat_completeness auto
termination
  by (relation "measure (\<lambda>(points, i, j, area). length points - i)") auto

definition calculatePolygonArea_fp :: "jsnum list \<Rightarrow> jsnum" where
  "calculatePolygonArea_fp points =
     Math_abs (fdiv (area_loop_fp points 0 (int (length points) - 2) (Fin 0)) (Fin 2))"

text \<open>
  A polygon is an array of points that may have empty slots (\<open>None\<close>): assigning past the
  end of a JavaScript array leaves holes, and \<open>reduce\<close> and \<open>forEach\<close> skip them.
  \<open>flattenPoints\<close> is the \<open>reduce\<close> that builds the flattened array.
\<close>

definition flattenPoints :: "point option list \<Rightarrow> jsnum list" where
  "flattenPoints polygon =
     foldl (\<lambda>acc p. case p of None \<Rightarrow> acc | Some (x, y) \<Rightarrow> acc @ [x, y]) [] polygon"


section \<open>Rooms, aggregate and editor state\<close>

text \<open>
  \<open>jsval\<close> is a value read from parsed JSON where the source reads it untyped: absent,
  \<open>null\<close>, a boolean, a number or a string. A room of the editor state is typed as
  \<open>RoomMetadata\<close>: numeric area, a polygon, optional numeric dimensions and floor; its
  \<open>id\<close> is read through \<open>(r as any).id\<close> and stays untyped. \<open>metadata\<close> is the aggregate,
  \<open>viewport\<close> the \<open>dimensions\<close> state, \<open>stage_config\<close> the \<open>stageConfig\<close> state.
\<close>

datatype jsval = JUndefined | JNull | JBool bool | JNum jsnum | JStr string

record dims_ft =
  width_ft :: jsnum
  length_ft :: jsnum

record room =
  id_r :: jsval
  type_r :: string
  polygon :: "point option list"
  area_sqft :: jsnum
  dimensions :: "dims_ft option"
  floor_r :: "jsnum option"

record metadata =
  total_area_sqft :: jsnum
  rooms :: "room list"
  num_bedrooms :: jsnum
  num_bathrooms :: jsnum

record viewport =
  width :: jsnum
  height :: jsnum

record stage_config =
  stage_scale :: jsnum
  stage_x :: jsnum
  stage_y :: jsnum

record editor_state =
  st_rooms :: "room list"
  st_dimensions :: viewport
  st_stageConfig :: stage_config

datatype error = TypeError

section \<open>Viewport Fitter\<close>

text \<open>
  The auto-scaling effect. The bounding box starts at \<open>(Infinity, -Infinity, Infinity,
  -Infinity)\<close> and is updated by four independent comparisons per vertex. The effect
  returns without setting the stage when the viewport width is falsy, when there are no
  rooms, or when no vertex was seen (\<open>minX\<close> is still \<open>Infinity\<close>); \<open>autoScale\<close> returns
  the stage configuration it was given in these cases.
\<close>

type_synonym bbox = "jsnum \<times> jsnum \<times> jsnum \<times> jsnum"

definition bbox_step :: "bbox \<Rightarrow> point \<Rightarrow> bbox" where
  "bbox_step b p =
     (case b of (minX, maxX, minY, maxY) \<Rightarrow>
        (if jlt (fst p) minX then fst p else minX,
         if jgt (fst p) maxX then fst p else maxX,
         if jlt (snd p) minY then snd p else minY,
         if jgt (snd p) maxY then snd p else maxY))"

definition room_bbox :: "bbox \<Rightarrow> room \<Rightarrow> bbox" where
  "room_bbox b r =
     foldl (\<lambda>acc p. case p of None \<Rightarrow> acc | Some q \<Rightarrow> bbox_step acc q) b (polygon r)"

definition rooms_bbox :: "room list \<Rightarrow> bbox" where
  "rooms_bbox rs = foldl room_bbox (PInf, NInf, PInf, NInf) rs"

definition autoScale :: "room list \<Rightarrow> viewport \<Rightarrow> stage_config \<Rightarrow> stage_config" where
  "autoScale rs dims stageConfig =
     (if \<not> truthy (width dims) \<or> length rs = 0 then stageConfig
      else case rooms_bbox rs of (minX, maxX, minY, maxY) \<Rightarrow>
        if minX \<noteq> PInf then
          let contentWidth = jsub maxX minX;
              contentHeight = jsub maxY minY;
              padding = Fin 40;
              scaleX = jdiv (jsub (width dims) (jmul padding (Fin 2))) (or_else contentWidth (Fin 1));
              scaleY = jdiv (jsub (height dims) (jmul padding (Fin 2))) (or_else contentHeight (Fin 1));
              scale = Math_min (Math_min scaleX scaleY) (Fin 2);
              sx = jsub (jdiv (jsub (width dims) (jmul contentWidth scale)) (Fin 2)) (jmul minX scale);
              sy = jsub (jdiv (jsub (height dims) (jmul contentHeight scale)) (Fin 2)) (jmul minY scale)
          in \<lparr>stage_scale = scale, stage_x = sx, stage_y = sy\<rparr>
        else stageConfig)"

section \<open>Vertex Editor\<close>

text \<open>
  \<open>findIndex\<close> returns the first position whose room has \<open>id === roomId\<close> or whose
  position is \<open>roomId\<close> (\<open>indexOf\<close> of a room is its position: the rooms of the list are
  distinct objects); \<open>None\<close> stands for \<open>-1\<close>.

  \<open>array_set\<close> is the assignment \<open>newPolygon[vertexIndex] = \<dots>\<close> on the spread copy: in
  range it replaces the element, at the end it appends, past the end it leaves holes in
  between. The vertex index is a natural number: the handler is called with the positions
  produced by \<open>polygon.map\<close>.

  \<open>handleDragVertex\<close> is the updater passed to \<open>setRooms\<close>. It returns the new room list
  and the snapshot handed to \<open>onMetadataChange\<close>, or the list it was given and no snapshot
  when the room is not found. Spreading an array turns its holes into \<open>undefined\<close>
  elements, and the \<open>reduce\<close> callback reads \<open>point[0]\<close> of each element: a polygon that
  still has an empty slot after the assignment makes it throw a \<open>TypeError\<close>.
\<close>

definition id_matches :: "jsval \<Rightarrow> jsnum \<Rightarrow> bool" where
  "id_matches v roomId = (case v of JNum n \<Rightarrow> strict_eq n roomId | _ \<Rightarrow> False)"

fun findIndex_from :: "room list \<Rightarrow> jsnum \<Rightarrow> nat \<Rightarrow> nat option" where
  "findIndex_from [] roomId k = None"
| "findIndex_from (r # rs) roomId k =
     (if id_matches (id_r r) roomId \<or> strict_eq (Fin (real k)) roomId then Some k
      else findIndex_from rs roomId (Suc k))"

definition findIndex :: "room list \<Rightarrow> jsnum \<Rightarrow> nat option" where
  "findIndex rs roomId = findIndex_from rs roomId 0"

definition array_set :: "'a option list \<Rightarrow> nat \<Rightarrow> 'a \<Rightarrow> 'a option list" where
  "array_set xs i v =
     (if i < length xs then xs[i := Some v]
      else xs @ replicate (i - length xs) None @ [Some v])"

definition sum_area_sqft :: "room list \<Rightarrow> jsnum" where
  "sum_area_sqft rs = foldl (\<lambda>sum r. jadd sum (area_sqft r)) (Fin 0) rs"

definition handleDragVertex ::
  "metadata \<Rightarrow> room list \<Rightarrow> jsnum \<Rightarrow> nat \<Rightarrow> point \<Rightarrow> error + (room list \<times> metadata option)" where
  "handleDragVertex md prevRooms roomId vertexIndex newPos =
     (case findIndex prevRooms roomId of
        None \<Rightarrow> Inr (prevRooms, None)
      | Some roomIndex \<Rightarrow>
          let oldRoom = prevRooms ! roomIndex in
          if None \<in> set ((polygon oldRoom)[vertexIndex := Some newPos]) then Inl TypeError
          else
            let newPolygon = array_set (polygon oldRoom) vertexIndex newPos;
                areaPixels = calculatePolygonArea (flattenPoints newPolygon);
                oldAreaPixels =
                  or_else (calculatePolygonArea (flattenPoints (polygon oldRoom))) (Fin 1);
                ratio = jdiv (area_sqft oldRoom) oldAreaPixels;
                newRoom = oldRoom\<lparr>polygon := newPolygon,
                  area_sqft := Math_round (Math_max (Fin 10) (jmul areaPixels ratio))\<rparr>;
                updatedRooms = prevRooms[roomIndex := newRoom];
                newTotalSqft = sum_area_sqft updatedRooms
            in Inr (updatedRooms,
                    Some (md\<lparr>rooms := updatedRooms, total_area_sqft := newTotalSqft\<rparr>)))"



text \<open>
  One drag event on the editor state. When the updater returns the list it was given,
  React keeps the state and runs no effect. Otherwise the room list state is replaced and
  the auto-scaling effect, whose dependencies are \<open>[rooms, dimensions]\<close>, runs on the new
  list. (The snapshot also reaches the parent, whose new \<open>metadata\<close> makes the first effect
  store a JSON copy of the same rooms; on finite polygons the copy has the same values.)
  \<open>run_edits\<close> processes a list of drag events in order; each emitted snapshot becomes the
  \<open>metadata\<close> the next handler closes over.
\<close>

definition drag_vertex ::
  "metadata \<Rightarrow> editor_state \<Rightarrow> jsnum \<Rightarrow> nat \<Rightarrow> point \<Rightarrow> error + (editor_state \<times> metadata option)" where
  "drag_vertex md st roomId vertexIndex newPos =
     (case handleDragVertex md (st_rooms st) roomId vertexIndex newPos of
        Inl e \<Rightarrow> Inl e
      | Inr (rs, None) \<Rightarrow> Inr (st, None)
      | Inr (rs, Some snapshot) \<Rightarrow>
          Inr (st\<lparr>st_rooms := rs,
                  st_stageConfig := autoScale rs (st_dimensions st) (st_stageConfig st)\<rparr>,
               Some snapshot))"


section \<open>Polygon Normalizer\<close>

text \<open>
  The normalizer works on \<open>JSON.parse (JSON.stringify metadata.rooms)\<close> with rooms typed
  \<open>any\<close>: the area and the dimension fields are untyped values, tested with \<open>typeof\<close> and
  truthiness and coerced by \<open>*\<close>. The conversion of a string to a number belongs to the
  language and is a parameter, \<open>StringToNumber\<close>. \<open>normalize_from\<close> is the \<open>forEach\<close> with
  its running \<open>currentOffset\<close>; \<open>fallback_size\<close> computes \<open>w\<close> and \<open>l\<close>, the length from
  the width before the width's guard is applied, as in the source. The arithmetic is in
  double precision. Of its divisions only \<open>safeArea / (w / 15)\<close> can meet a zero divisor,
  when a dimension is a string that converts to zero; the quotient is then taken as for
  \<open>+0\<close>.
\<close>

record raw_dims =
  raw_width_ft :: jsval
  raw_length_ft :: jsval

record raw_room =
  raw_polygon :: "point list option"
  raw_area_sqft :: jsval
  raw_dimensions :: "raw_dims option"

fun ToBoolean :: "jsval \<Rightarrow> bool" where
  "ToBoolean JUndefined = False"
| "ToBoolean JNull = False"
| "ToBoolean (JBool b) = b"
| "ToBoolean (JNum n) = truthy n"
| "ToBoolean (JStr s) = (s \<noteq> [])"

fun ToNumber :: "(string \<Rightarrow> jsnum) \<Rightarrow> jsval \<Rightarrow> jsnum" where
  "ToNumber StringToNumber JUndefined = NaN"
| "ToNumber StringToNumber JNull = Fin 0"
| "ToNumber StringToNumber (JBool b) = (if b then Fin 1 else Fin 0)"
| "ToNumber StringToNumber (JNum n) = n"
| "ToNumber StringToNumber (JStr s) = StringToNumber s"

definition needs_fallback :: "raw_room \<Rightarrow> bool" where
  "needs_fallback r = (case raw_polygon r of None \<Rightarrow> True | Some p \<Rightarrow> length p < 3)"

definition dim_width_ft :: "raw_room \<Rightarrow> jsval" where
  "dim_width_ft r = (case raw_dimensions r of None \<Rightarrow> JUndefined | Some d \<Rightarrow> raw_width_ft d)"

definition dim_length_ft :: "raw_room \<Rightarrow> jsval" where
  "dim_length_ft r = (case raw_dimensions r of None \<Rightarrow> JUndefined | Some d \<Rightarrow> raw_length_ft d)"

definition safeArea :: "raw_room \<Rightarrow> jsnum" where
  "safeArea r =
     (case raw_area_sqft r of
        JNum a \<Rightarrow> if jgt a (Fin 0) then a else Fin 100
      | _ \<Rightarrow> Fin 100)"

definition fallback_size :: "(string \<Rightarrow> jsnum) \<Rightarrow> raw_room \<Rightarrow> jsnum \<times> jsnum" where
  "fallback_size StringToNumber r =
     (let w = (if ToBoolean (dim_width_ft r)
               then fmul (ToNumber StringToNumber (dim_width_ft r)) (Fin 15)
               else fmul (fsqrt (safeArea r)) (Fin 15));
          l = (if ToBoolean (dim_length_ft r)
               then fmul (ToNumber StringToNumber (dim_length_ft r)) (Fin 15)
               else fmul (fdiv (safeArea r) (fdiv w (Fin 15))) (Fin 15));
          w' = (if isNaN w \<or> jle w (Fin 0) then Fin 150 else w);
          l' = (if isNaN l \<or> jle l (Fin 0) then Fin 150 else l)
      in (w', l'))"

definition fallback_polygon :: "jsnum \<Rightarrow> jsnum \<Rightarrow> jsnum \<Rightarrow> point list" where
  "fallback_polygon currentOffset w l =
     [(currentOffset, Fin 0), (fadd currentOffset w, Fin 0),
      (fadd currentOffset w, l), (currentOffset, l)]"

fun normalize_from :: "(string \<Rightarrow> jsnum) \<Rightarrow> jsnum \<Rightarrow> raw_room list \<Rightarrow> raw_room list" where
  "normalize_from StringToNumber currentOffset [] = []"
| "normalize_from StringToNumber currentOffset (r # rs) =
     (if needs_fallback r
      then (case fallback_size StringToNumber r of (w, l) \<Rightarrow>
              r\<lparr>raw_polygon := Some (fallback_polygon currentOffset w l)\<rparr>
              # normalize_from StringToNumber (fadd currentOffset (fadd w (Fin 20))) rs)
      else r # normalize_from StringToNumber currentOffset rs)"

definition normalizeRooms :: "(string \<Rightarrow> jsnum) \<Rightarrow> raw_room list \<Rightarrow> raw_room list" where
  "normalizeRooms StringToNumber rs = normalize_from StringToNumber (Fin 0) rs"

definition polygon_area :: "point list \<Rightarrow> jsnum" where
  "polygon_area ps = calculatePolygonArea_fp (flattenPoints (map Some ps))"

section \<open>3D Projector\<close>

text \<open>
  \<open>roomOffset\<close> is the offset \<open>FloorPlan3D\<close> computes for room \<open>i\<close> from the layout offset:
  a three-column grid for rooms without polygon points, and the height
  \<open>floorIndex * wallHeight\<close>. \<open>Room\<close> places its group at \<open>[offset.x, 0, offset.z]\<close> and
  extrudes the shape by \<open>wallHeight\<close>; the meshes are rotated so that the extrusion points
  upwards, hence the shell occupies the heights from the group's second coordinate to that
  plus the depth.
\<close>

record vector3 =
  vx :: jsnum
  vy :: jsnum
  vz :: jsnum

definition wallHeight :: jsnum where
  "wallHeight = Fin 8"

definition fallback_width :: "room \<Rightarrow> jsnum" where
  "fallback_width r =
     (case dimensions r of
        None \<Rightarrow> Math_sqrt (area_sqft r)
      | Some d \<Rightarrow> or_else (width_ft d) (Math_sqrt (area_sqft r)))"

definition fallback_length :: "room \<Rightarrow> jsnum" where
  "fallback_length r =
     (case dimensions r of
        None \<Rightarrow> jdiv (area_sqft r) (fallback_width r)
      | Some d \<Rightarrow> or_else (length_ft d) (jdiv (area_sqft r) (fallback_width r)))"

definition roomOffset :: "vector3 \<Rightarrow> nat \<Rightarrow> room \<Rightarrow> vector3" where
  "roomOffset offset i r =
     (let spread =
            (if length (polygon r) = 0
             then (let cols = 3; row = i div cols; col = i mod cols; gap = Fin 2
                   in \<lparr>vx = jadd (vx offset) (jmul (Fin (real col)) (jadd (fallback_width r) gap)),
                       vy = Fin 0,
                       vz = jadd (vz offset) (jmul (Fin (real row)) (jadd (fallback_length r) gap))\<rparr>)
             else \<lparr>vx = vx offset, vy = vy offset, vz = vz offset\<rparr>);
          floorIndex =
            (case floor_r r of
               None \<Rightarrow> Fin 0
             | Some f \<Rightarrow> if truthy f then jsub f (Fin 1) else Fin 0)
      in spread\<lparr>vy := jmul floorIndex wallHeight\<rparr>)"

definition Room_group_position :: "vector3 \<Rightarrow> jsnum \<times> jsnum \<times> jsnum" where
  "Room_group_position offset = (vx offset, Fin 0, vz offset)"

definition Room_extrude_depth :: jsnum where
  "Room_extrude_depth = wallHeight"

definition shell_vertical_offset :: "nat \<Rightarrow> vector3 \<Rightarrow> room \<Rightarrow> jsnum" where
  "shell_vertical_offset i offset r = fst (snd (Room_group_position (roomOffset offset i r)))"


section \<open>Reference notions used in the statements\<close>

text \<open>
  The notions the properties are stated with. \<open>fin_polygon\<close> embeds a list of real points
  as a polygon of finite numbers without holes. \<open>shoelace_area\<close> is the shoelace formula
  \<open>|\<Sum> (x[j] + x[i]) * (y[j] - y[i])| / 2\<close> with \<open>j\<close> the index before \<open>i\<close>, wrapping around,
  over the reals; \<open>shoelace_area_fp\<close> is the same formula evaluated in double precision,
  the terms added from left to right. \<open>jsum\<close> is the sum of a list of numbers,
  \<open>spec_area_sqft\<close> the area rule \<open>max 10 (round (newPixelArea * ratio))\<close> over the reals,
  \<open>bbox_of\<close> the axis-aligned bounding box of a list of points, \<open>fit_scale\<close> the scale rule
  with padding 40 and largest scale 2, \<open>room_matches\<close> the test \<open>findIndex\<close> applies to the
  room at a position, and \<open>int_points\<close> a list of points with whole-number coordinates.
\<close>

definition fin_polygon :: "(real \<times> real) list \<Rightarrow> point option list" where
  "fin_polygon ps = map (\<lambda>(x, y). Some (Fin x, Fin y)) ps"

definition prev_index :: "nat \<Rightarrow> nat \<Rightarrow> nat" where
  "prev_index n i = (if i = 0 then n - 1 else i - 1)"

definition shoelace_term :: "(real \<times> real) list \<Rightarrow> nat \<Rightarrow> real" where
  "shoelace_term ps i =
     (let j = prev_index (length ps) i
      in (fst (ps ! j) + fst (ps ! i)) * (snd (ps ! j) - snd (ps ! i)))"

definition shoelace_area :: "(real \<times> real) list \<Rightarrow> real" where
  "shoelace_area ps = \<bar>\<Sum>i\<leftarrow>[0..<length ps]. shoelace_term ps i\<bar> / 2"

definition shoelace_term_fp :: "(real \<times> real) list \<Rightarrow> nat \<Rightarrow> jsnum" where
  "shoelace_term_fp ps i =
     (let j = prev_index (length ps) i
      in fmul (fadd (Fin (fst (ps ! j))) (Fin (fst (ps ! i))))
              (fsub (Fin (snd (ps ! j))) (Fin (snd (ps ! i)))))"

definition shoelace_area_fp :: "(real \<times> real) list \<Rightarrow> jsnum" where
  "shoelace_area_fp ps =
     Math_abs (fdiv (foldl (\<lambda>sum i. fadd sum (shoelace_term_fp ps i)) (Fin 0) [0..<length ps])
                    (Fin 2))"

definition int_points :: "(int \<times> int) list \<Rightarrow> (real \<times> real) list" where
  "int_points qs = map (\<lambda>(a, b). (of_int a, of_int b)) qs"

fun jsum :: "jsnum list \<Rightarrow> jsnum" where
  "jsum [] = Fin 0"
| "jsum (a # as) = jadd a (jsum as)"

definition js_round :: "real \<Rightarrow> real" where
  "js_round v = of_int \<lfloor>v + 1 / 2\<rfloor>"

definition spec_area_sqft :: "real \<Rightarrow> real \<Rightarrow> real \<Rightarrow> real" where
  "spec_area_sqft previous_area_sqft oldPixelArea newPixelArea =
     (let ratio = previous_area_sqft / (if oldPixelArea = 0 then 1 else oldPixelArea)
      in max 10 (js_round (newPixelArea * ratio)))"

definition bbox_of :: "(real \<times> real) list \<Rightarrow> real \<times> real \<times> real \<times> real" where
  "bbox_of vs = (Min (set (map fst vs)), Max (set (map fst vs)),
                 Min (set (map snd vs)), Max (set (map snd vs)))"

definition fit_scale :: "real \<Rightarrow> real \<Rightarrow> real \<Rightarrow> real \<Rightarrow> real" where
  "fit_scale viewportWidth viewportHeight bboxWidth bboxHeight =
     (let padding = 40; maxScale = 2
      in min (min ((viewportWidth - 2 * padding) / bboxWidth)
                  ((viewportHeight - 2 * padding) / bboxHeight)) maxScale)"

definition room_matches :: "room list \<Rightarrow> jsnum \<Rightarrow> nat \<Rightarrow> bool" where
  "room_matches rs roomId k =
     (id_matches (id_r (rs ! k)) roomId \<or> strict_eq (Fin (real k)) roomId)"

section \<open>Sample data\<close>

text \<open>
  Concrete rooms and states for the examples. \<open>sample_StringToNumber\<close> agrees with the
  language on the two strings used: \<open>''Infinity''\<close> converts to \<open>Infinity\<close> and \<open>''abc''\<close>
  to NaN.
\<close>

definition example_room :: room where
  "example_room =
     \<lparr>id_r = JUndefined, type_r = ''bedroom'',
      polygon = fin_polygon [(0, 0), (100, 0), (100, 100), (0, 100)],
      area_sqft = Fin 100, dimensions = None, floor_r = Some (Fin 1)\<rparr>"

definition example_metadata :: metadata where
  "example_metadata =
     \<lparr>total_area_sqft = Fin 100, rooms = [example_room],
      num_bedrooms = Fin 1, num_bathrooms = Fin 0\<rparr>"






definition example_state :: editor_state where
  "example_state =
     \<lparr>st_rooms = [example_room],
      st_dimensions = \<lparr>width = Fin 500, height = Fin 500\<rparr>,
      st_stageConfig = \<lparr>stage_scale = Fin 2, stage_x = Fin 150, stage_y = Fin 150\<rparr>\<rparr>"

definition stretched_room :: room where
  "stretched_room =
     example_room\<lparr>polygon := fin_polygon [(0, 0), (100, 0), (400, 400), (0, 100)],
                   area_sqft := Fin 400\<rparr>"

definition bare_room :: raw_room where
  "bare_room = \<lparr>raw_polygon = None, raw_area_sqft = JNum (Fin 100), raw_dimensions = None\<rparr>"

definition sized_room :: raw_room where
  "sized_room =
     \<lparr>raw_polygon = Some [], raw_area_sqft = JNum (Fin 120),
      raw_dimensions = Some \<lparr>raw_width_ft = JNum (Fin 10), raw_length_ft = JNum (Fin 12)\<rparr>\<rparr>"

definition infinite_length_room :: raw_room where
  "infinite_length_room =
     \<lparr>raw_polygon = None, raw_area_sqft = JNum (Fin 100),
      raw_dimensions = Some \<lparr>raw_width_ft = JUndefined, raw_length_ft = JStr ''Infinity''\<rparr>\<rparr>"

definition sample_StringToNumber :: "string \<Rightarrow> jsnum" where
  "sample_StringToNumber s = (if s = ''Infinity'' then PInf else NaN)"

definition malformed_room :: raw_room where
  "malformed_room =
     \<lparr>raw_polygon = None, raw_area_sqft = JStr ''unknown'',
      raw_dimensions = Some \<lparr>raw_width_ft = JNum (Fin (- 10)), raw_length_ft = JUndefined\<rparr>\<rparr>"

definition garbled_room :: raw_room where
  "garbled_room =
     \<lparr>raw_polygon = None, raw_area_sqft = JNull,
      raw_dimensions = Some \<lparr>raw_width_ft = JStr ''abc'', raw_length_ft = JNull\<rparr>\<rparr>"

section \<open>Properties of double-precision rounding\<close>

lemma rhe_err: "\<bar>of_int (round_half_even q) - q\<bar> \<le> 1 / 2"
  unfolding round_half_even_def Let_def by (auto; linarith)

lemma rhe_int: "round_half_even (of_int k) = k"
  unfolding round_half_even_def Let_def by simp

lemma rhe_ge: "of_int k \<le> q \<Longrightarrow> k \<le> round_half_even q"
proof -
  assume "of_int k \<le> q"
  then have "k \<le> \<lfloor>q\<rfloor>" by (simp add: le_floor_iff)
  then show ?thesis unfolding round_half_even_def Let_def by auto
qed

lemma rhe_le: "q \<le> of_int k \<Longrightarrow> round_half_even q \<le> k"
proof -
  assume a: "q \<le> of_int k"
  show ?thesis
  proof (cases "q = of_int k")
    case True then show ?thesis by (simp add: rhe_int)
  next
    case False
    with a have "q < of_int k" by simp
    then have "\<lfloor>q\<rfloor> < k" by (simp add: floor_less_iff)
    then show ?thesis unfolding round_half_even_def Let_def by auto
  qed
qed

lemma two_powr_int: "(2::real) powr real_of_int e = 2 powi e"
  by (simp add: powr_real_of_int')

lemma floor_log2: 
  assumes "0 < x" "2 powi e \<le> x" "x < 2 powi (e + 1)"
  shows "\<lfloor>log 2 x\<rfloor> = e"
proof -
  have "real_of_int e \<le> log 2 x"
    using assms by (simp add: le_log_iff two_powr_int)
  moreover have "log 2 x < real_of_int (e + 1)"
    using assms(3) unfolding log_less_iff[OF _ assms(1), of 2, simplified] two_powr_int .
  ultimately show ?thesis by (simp add: floor_eq_iff)
qed

lemma log2_bracket:
  assumes "0 < x"
  shows "2 powi \<lfloor>log 2 x\<rfloor> \<le> x" "x < 2 powi (\<lfloor>log 2 x\<rfloor> + 1)"
proof -
  have "real_of_int \<lfloor>log 2 x\<rfloor> \<le> log 2 x" by simp
  then show "2 powi \<lfloor>log 2 x\<rfloor> \<le> x"
    using assms by (simp add: le_log_iff two_powr_int del: of_int_floor_le)
  have "log 2 x < real_of_int (\<lfloor>log 2 x\<rfloor> + 1)" by linarith
  then show "x < 2 powi (\<lfloor>log 2 x\<rfloor> + 1)"
    unfolding log_less_iff[OF _ assms, of 2, simplified] two_powr_int .
qed

lemma p2_pos: "0 < (2::real) powi a"
  by simp

lemma p2_add: "(2::real) powi (a + b) = 2 powi a * 2 powi b"
  by (simp add: power_int_add)

lemma p2_diff: "(2::real) powi (a - b) = 2 powi a / 2 powi b"
  by (simp add: power_int_diff)

lemma p2_mono: "a \<le> b \<Longrightarrow> (2::real) powi a \<le> 2 powi b"
  by (simp add: power_int_increasing)

lemma p2_strict: "a < b \<Longrightarrow> (2::real) powi a < 2 powi b"
  by (simp add: power_int_strict_increasing)

lemma p2_nat: "0 \<le> a \<Longrightarrow> (2::real) powi a = of_int (2 ^ nat a)"
  by (simp add: power_int_nonneg_exp)

lemma ulp_pos: "0 < ulp x"
  unfolding ulp_def by simp

lemma binade_ge: "- 1022 \<le> binade x"
  unfolding binade_def by simp

lemma binade_minus: "binade (- x) = binade x"
  unfolding binade_def by simp

lemma ulp_minus: "ulp (- x) = ulp x"
  unfolding ulp_def by (simp add: binade_minus)

lemma binade_upper:
  assumes "0 < x"
  shows "x < 2 powi (binade x + 1)"
proof -
  have "x < 2 powi (\<lfloor>log 2 x\<rfloor> + 1)" using log2_bracket(2)[OF assms] .
  also have "\<dots> \<le> 2 powi (binade x + 1)"
    using assms by (intro p2_mono) (simp add: binade_def)
  finally show ?thesis .
qed

lemma binade_lower:
  assumes "2 powi (- 1022) \<le> x"
  shows "2 powi (binade x) \<le> x"
proof -
  have pos: "0 < x" using assms p2_pos[of "- 1022"] by linarith
  show ?thesis
  proof (cases "- 1022 \<le> \<lfloor>log 2 x\<rfloor>")
    case True
    then have "binade x = \<lfloor>log 2 x\<rfloor>" using pos by (simp add: binade_def)
    then show ?thesis using log2_bracket(1)[OF pos] by simp
  next
    case False
    then have "binade x = - 1022" using pos by (simp add: binade_def)
    then show ?thesis using assms by simp
  qed
qed

lemma binade_eq:
  assumes "0 < x" "2 powi e \<le> x" "x < 2 powi (e + 1)"
  shows "binade x = max e (- 1022)"
  using floor_log2[OF assms] assms(1) by (simp add: binade_def)

lemma binade_le:
  assumes "0 < x" "x < 2 powi (e + 1)" "- 1022 \<le> e"
  shows "binade x \<le> e"
proof -
  have "2 powi \<lfloor>log 2 x\<rfloor> < (2::real) powi (e + 1)"
    using log2_bracket(1)[OF assms(1)] assms(2) by linarith
  then have "\<lfloor>log 2 x\<rfloor> < e + 1"
    by (metis p2_mono not_le)
  then show ?thesis using assms by (simp add: binade_def)
qed

lemma binade_subnormal:
  assumes "0 < x" "x < 2 powi (- 1022)"
  shows "binade x = - 1022"
  using binade_le[of x "- 1022"] assms binade_ge[of x] by simp

lemma nearest_err: "\<bar>nearest x - x\<bar> \<le> ulp x / 2"
proof -
  let ?u = "ulp x"
  have u: "0 < ?u" by (rule ulp_pos)
  have "nearest x - x = (of_int (round_half_even (x / ?u)) - x / ?u) * ?u"
    using u by (simp add: nearest_def algebra_simps)
  then have "\<bar>nearest x - x\<bar> = \<bar>of_int (round_half_even (x / ?u)) - x / ?u\<bar> * ?u"
    using u by (simp add: abs_mult)
  also have "\<dots> \<le> (1 / 2) * ?u"
    using rhe_err[of "x / ?u"] u by (intro mult_right_mono) auto
  finally show ?thesis by simp
qed

lemma nearest_nonneg: "0 \<le> x \<Longrightarrow> 0 \<le> nearest x"
proof -
  assume "0 \<le> x"
  then have "of_int 0 \<le> x / ulp x" using ulp_pos[of x] by simp
  then have "0 \<le> round_half_even (x / ulp x)" by (rule rhe_ge)
  then show ?thesis using ulp_pos[of x] by (simp add: nearest_def)
qed

lemma nearest_upper:
  assumes "0 < x"
  shows "nearest x \<le> 2 powi (binade x + 1)"
proof -
  have "x / ulp x < 2 powi (binade x + 1) / ulp x"
    using binade_upper[OF assms] ulp_pos[of x] by (simp add: divide_strict_right_mono)
  also have "2 powi (binade x + 1) / ulp x = (2::real) powi 53"
    unfolding ulp_def by (simp flip: p2_diff)
  also have "\<dots> = of_int (2 ^ 53)" by simp
  finally have "round_half_even (x / ulp x) \<le> 2 ^ 53"
    by (intro rhe_le) simp
  then have "real_of_int (round_half_even (x / ulp x)) \<le> 2 powi 53"
    by (metis of_int_le_iff of_int_numeral of_int_power power_int_numeral)
  then have "nearest x \<le> 2 powi 53 * ulp x"
    unfolding nearest_def using ulp_pos[of x] by (intro mult_right_mono) auto
  also have "\<dots> = 2 powi (binade x + 1)"
    unfolding ulp_def using p2_add[of 53 "binade x - 52"] by (simp add: add.commute)
  finally show ?thesis .
qed

lemma nearest_lower:
  assumes "2 powi (binade x) \<le> x"
  shows "2 powi (binade x) \<le> nearest x"
proof -
  have "2 powi (binade x) / ulp x \<le> x / ulp x"
    using assms ulp_pos[of x] by (simp add: divide_right_mono)
  moreover have "2 powi (binade x) / ulp x = (2::real) powi 52"
    unfolding ulp_def by (simp flip: p2_diff)
  moreover have "(2::real) powi 52 = of_int (2 ^ 52)" by simp
  ultimately have "2 ^ 52 \<le> round_half_even (x / ulp x)"
    by (intro rhe_ge) simp
  then have "2 powi 52 \<le> real_of_int (round_half_even (x / ulp x))"
    by (metis of_int_le_iff of_int_numeral of_int_power power_int_numeral)
  then have "2 powi 52 * ulp x \<le> nearest x"
    unfolding nearest_def using ulp_pos[of x] by (intro mult_right_mono) auto
  moreover have "2 powi 52 * ulp x = 2 powi (binade x)"
    unfolding ulp_def using p2_add[of 52 "binade x - 52"] by simp
  ultimately show ?thesis by simp
qed

lemma nearest_exact:
  assumes "0 < x" "x = of_int k * 2 powi j" "k < 2 ^ 53" "- 1074 \<le> j"
  shows "nearest x = x"
proof -
  have "x < 2 powi 53 * 2 powi j"
  proof -
    have "real_of_int k < 2 powi 53" using assms(3)
      by (metis of_int_less_iff of_int_numeral of_int_power power_int_numeral)
    then show ?thesis unfolding assms(2) by (intro mult_strict_right_mono) auto
  qed
  then have "x < 2 powi ((j + 52) + 1)" using p2_add[of 53 j] by (simp add: algebra_simps)
  then have "binade x \<le> j + 52"
    using assms by (intro binade_le) auto
  then have nn: "0 \<le> j - (binade x - 52)" by simp
  have "x / ulp x = of_int k * 2 powi (j - (binade x - 52))"
    unfolding ulp_def assms(2) by (simp add: p2_diff)
  also have "\<dots> = of_int (k * 2 ^ nat (j - (binade x - 52)))"
    using p2_nat[OF nn] by simp
  finally have "round_half_even (x / ulp x) = k * 2 ^ nat (j - (binade x - 52))"
    by (simp only: rhe_int)
  then have "nearest x = of_int k * 2 powi (j - (binade x - 52)) * ulp x"
    unfolding nearest_def using p2_nat[OF nn] by simp
  also have "\<dots> = x"
    unfolding ulp_def assms(2) by (simp add: p2_diff)
  finally show ?thesis .
qed

lemma jneg_jneg: "jneg (jneg a) = a"
  by (cases a) auto

lemma of_int_less_p53: "k < 2 ^ 53 \<Longrightarrow> real_of_int k < 2 powi 53"
  by (metis of_int_less_iff of_int_numeral of_int_power power_int_numeral)

lemma ulp_half: "ulp x / 2 = 2 powi (binade x - 53)"
  unfolding ulp_def using p2_diff[of "binade x - 52" 1] by simp

lemma ulp_abs: "ulp \<bar>x\<bar> = ulp x"
  by (simp add: abs_if ulp_minus)

lemma binade_abs: "binade \<bar>x\<bar> = binade x"
  unfolding binade_def by simp

lemma ulp_half_normal:
  assumes n: "2 powi (- 1022) \<le> \<bar>x\<bar>"
  shows "ulp x / 2 \<le> \<bar>x\<bar> * 2 powi (- 53)"
proof -
  have "2 powi (binade \<bar>x\<bar>) \<le> \<bar>x\<bar>" using n by (rule binade_lower)
  then have "2 powi (binade x) * 2 powi (- 53) \<le> \<bar>x\<bar> * 2 powi (- 53)"
    unfolding binade_abs by (intro mult_right_mono p2_pos[THEN less_imp_le])
  moreover have "2 powi (binade x - 53) = 2 powi (binade x) * (2::real) powi (- 53)"
    using p2_add[of "binade x" "- 53"] by (simp only: diff_conv_add_uminus)
  ultimately show ?thesis unfolding ulp_half by (simp only:)
qed

lemma ulp_half_subnormal:
  assumes "x \<noteq> 0" "\<bar>x\<bar> < 2 powi (- 1022)"
  shows "ulp x / 2 = 2 powi (- 1075)"
proof -
  have "binade \<bar>x\<bar> = - 1022" using assms by (intro binade_subnormal) auto
  then have "binade x - 53 = - 1075" unfolding binade_abs by simp
  then show ?thesis unfolding ulp_half by (simp only:)
qed

lemma ulp_half_bound:
  assumes "x \<noteq> 0"
  shows "ulp x / 2 \<le> \<bar>x\<bar> * 2 powi (- 53) + 2 powi (- 1075)"
proof (cases "2 powi (- 1022) \<le> \<bar>x\<bar>")
  case True
  have "0 < (2::real) powi (- 1075)" by (rule p2_pos)
  then show ?thesis using ulp_half_normal[OF True] by linarith
next
  case False
  then have "ulp x / 2 = 2 powi (- 1075)" using assms by (intro ulp_half_subnormal) auto
  moreover have "0 \<le> \<bar>x\<bar> * 2 powi (- 53)" by (intro mult_nonneg_nonneg) auto
  ultimately show ?thesis by linarith
qed

lemma to_double_zero: "to_double 0 = Fin 0"
  by (simp add: to_double_def)

lemma to_double_neg: "to_double (- x) = jneg (to_double x)"
  by (simp add: to_double_def jneg_jneg)

lemma round_pos_below:
  assumes "0 < x" "x < 2 powi (e + 1)" "- 1022 \<le> e" "e \<le> 1023"
  shows "nearest x \<le> 2 powi (e + 1)"
proof -
  have "binade x \<le> e" using assms by (intro binade_le)
  then have "(2::real) powi (binade x + 1) \<le> 2 powi (e + 1)" by (intro p2_mono) simp
  then show ?thesis using nearest_upper[OF assms(1)] by linarith
qed

lemma round_pos_fin:
  assumes "0 < x" "x < 2 powi 1023"
  shows "round_pos x = Fin (nearest x)"
proof -
  have "x < 2 powi (1022 + 1)" using assms(2) by (simp only: one_add_one numeral_plus_one arith_simps)
  then have "nearest x \<le> 2 powi (1022 + 1)"
    using assms(1) by (intro round_pos_below) simp_all
  moreover have "(2::real) powi (1022 + 1) < 2 powi 1024" by (intro p2_strict) simp
  ultimately have "\<not> 2 powi 1024 \<le> nearest x" by linarith
  then show ?thesis unfolding round_pos_def by (simp only: if_False)
qed

lemma round_pos_exact:
  assumes "0 < x" "x = of_int k * 2 powi j" "k < 2 ^ 53" "- 1074 \<le> j" "x < 2 powi 1024"
  shows "round_pos x = Fin x"
proof -
  have "nearest x = x" using assms(1-4) by (rule nearest_exact)
  moreover have "\<not> 2 powi 1024 \<le> x" using assms(5) by linarith
  ultimately show ?thesis unfolding round_pos_def by (simp only: if_False)
qed

lemma to_double_exact:
  assumes "\<bar>k\<bar> < 2 ^ 53" "- 1074 \<le> j" "\<bar>of_int k * 2 powi j\<bar> < (2::real) powi 1024"
  shows "to_double (of_int k * 2 powi j) = Fin (of_int k * 2 powi j)"
proof -
  let ?x = "real_of_int k * 2 powi j"
  consider "k = 0" | "0 < k" | "k < 0" by linarith
  then show ?thesis
  proof cases
    case 1 then show ?thesis by (simp add: to_double_def)
  next
    case 2
    then have pos: "0 < ?x" by simp
    have "?x < 2 powi 1024" using assms(3) by linarith
    then have "round_pos ?x = Fin ?x"
      using assms(1,2) pos 2 by (intro round_pos_exact[where k = k and j = j]) auto
    then show ?thesis using pos by (simp only: to_double_def) simp
  next
    case 3
    then have neg: "?x < 0" by (simp add: mult_neg_pos)
    have "- ?x < 2 powi 1024" using assms(3) by linarith
    then have "round_pos (- ?x) = Fin (- ?x)"
      using assms(1,2) neg 3 by (intro round_pos_exact[where k = "- k" and j = j]) auto
    then show ?thesis using neg by (simp only: to_double_def) simp
  qed
qed

lemma p53_less_p1024: "(2::real) powi 53 < 2 powi 1024"
  by (intro p2_strict) simp

lemma to_double_int:
  assumes "\<bar>k\<bar> < 2 ^ 53"
  shows "to_double (of_int k) = Fin (of_int k)"
proof -
  have "real_of_int \<bar>k\<bar> < 2 powi 53" using assms by (rule of_int_less_p53)
  then have "\<bar>real_of_int k * 2 powi 0\<bar> < 2 powi 1024" using p53_less_p1024 by simp
  then have "to_double (of_int k * 2 powi 0) = Fin (of_int k * 2 powi 0)"
    using assms by (intro to_double_exact) simp_all
  then show ?thesis by simp
qed

lemma to_double_half_int:
  assumes "\<bar>k\<bar> < 2 ^ 53"
  shows "to_double (of_int k / 2) = Fin (of_int k / 2)"
proof -
  have h: "real_of_int k * 2 powi (- 1) = of_int k / 2" by (simp add: power_int_minus)
  have "real_of_int \<bar>k\<bar> < 2 powi 53" using assms by (rule of_int_less_p53)
  then have "\<bar>real_of_int k * 2 powi (- 1)\<bar> < 2 powi 1024"
    unfolding h using p53_less_p1024 by simp
  then have "to_double (of_int k * 2 powi (- 1)) = Fin (of_int k * 2 powi (- 1))"
    using assms by (intro to_double_exact) simp_all
  then show ?thesis unfolding h .
qed

lemma round_pos_overflow:
  assumes "2 powi 1024 \<le> x"
  shows "round_pos x = PInf"
proof -
  have pos: "0 < x" using assms p2_pos[of 1024] by linarith
  have "(2::real) powi (- 1022) \<le> 2 powi 1024" by (intro p2_mono) simp
  then have low: "2 powi (binade x) \<le> x" using assms by (intro binade_lower) linarith
  have "\<not> binade x < 1024"
  proof
    assume "binade x < 1024"
    then have "(2::real) powi (binade x + 1) \<le> 2 powi 1024" by (intro p2_mono) simp
    then show False using binade_upper[OF pos] assms by linarith
  qed
  then have "(2::real) powi 1024 \<le> 2 powi (binade x)" by (intro p2_mono) simp
  then have "2 powi 1024 \<le> nearest x" using nearest_lower[OF low] by linarith
  then show ?thesis unfolding round_pos_def by (simp only: if_True)
qed

lemma to_double_overflow:
  assumes "2 powi 1024 \<le> x"
  shows "to_double x = PInf"
proof -
  have "0 < x" using assms p2_pos[of 1024] by linarith
  then show ?thesis using round_pos_overflow[OF assms] by (simp add: to_double_def)
qed

lemma to_double_fin:
  assumes "\<bar>x\<bar> < 2 powi 1023"
  shows "\<exists>y. to_double x = Fin y \<and> \<bar>y - x\<bar> \<le> \<bar>x\<bar> * 2 powi (- 53) + 2 powi (- 1075)
           \<and> (2 powi (- 1022) \<le> \<bar>x\<bar> \<longrightarrow> \<bar>y - x\<bar> \<le> \<bar>x\<bar> * 2 powi (- 53))
           \<and> (0 \<le> x \<longrightarrow> 0 \<le> y) \<and> (x \<le> 0 \<longrightarrow> y \<le> 0)"
proof -
  consider "x = 0" | "0 < x" | "x < 0" by linarith
  then show ?thesis
  proof cases
    case 1
    have "0 \<le> (2::real) powi (- 1075)" by simp
    then show ?thesis using 1 by (simp add: to_double_def del: power_int_numeral_neg_numeral)
  next
    case 2
    have "x < 2 powi 1023" using assms by linarith
    then have "to_double x = Fin (nearest x)"
      using 2 round_pos_fin[of x] by (simp only: to_double_def) simp
    moreover have "\<bar>nearest x - x\<bar> \<le> ulp x / 2" by (rule nearest_err)
    moreover have "0 \<le> nearest x" using 2 by (intro nearest_nonneg) simp
    moreover have "ulp x / 2 \<le> \<bar>x\<bar> * 2 powi (- 53) + 2 powi (- 1075)"
      using 2 by (intro ulp_half_bound) simp
    moreover have "2 powi (- 1022) \<le> \<bar>x\<bar> \<longrightarrow> ulp x / 2 \<le> \<bar>x\<bar> * 2 powi (- 53)"
      using ulp_half_normal by blast
    ultimately show ?thesis using 2 by (intro exI[of _ "nearest x"]) linarith
  next
    case 3
    have "- x < 2 powi 1023" using assms by linarith
    then have "to_double x = Fin (- nearest (- x))"
      using 3 round_pos_fin[of "- x"] by (simp only: to_double_def) simp
    moreover have "\<bar>nearest (- x) - (- x)\<bar> \<le> ulp x / 2"
      using nearest_err[of "- x"] by (simp only: ulp_minus)
    moreover have "0 \<le> nearest (- x)" using 3 by (intro nearest_nonneg) simp
    moreover have "ulp x / 2 \<le> \<bar>x\<bar> * 2 powi (- 53) + 2 powi (- 1075)"
      using 3 by (intro ulp_half_bound) simp
    moreover have "2 powi (- 1022) \<le> \<bar>x\<bar> \<longrightarrow> ulp x / 2 \<le> \<bar>x\<bar> * 2 powi (- 53)"
      using ulp_half_normal by blast
    ultimately show ?thesis using 3 by (intro exI[of _ "- nearest (- x)"]) linarith
  qed
qed

lemma rhe_bound:
  assumes "0 < x"
  shows "0 \<le> round_half_even (x / ulp x)" "round_half_even (x / ulp x) \<le> 2 ^ 53"
proof -
  have "of_int 0 \<le> x / ulp x" using assms ulp_pos[of x] by simp
  then show "0 \<le> round_half_even (x / ulp x)" by (rule rhe_ge)
  have "x / ulp x < 2 powi (binade x + 1) / ulp x"
    using binade_upper[OF assms] ulp_pos[of x] by (simp add: divide_strict_right_mono)
  also have "2 powi (binade x + 1) / ulp x = (2::real) powi 53"
    unfolding ulp_def by (simp flip: p2_diff)
  also have "\<dots> = of_int (2 ^ 53)" by simp
  finally show "round_half_even (x / ulp x) \<le> 2 ^ 53"
    by (intro rhe_le) simp
qed

lemma nearest_repr:
  assumes "0 < x"
  shows "\<exists>k j. nearest x = of_int k * 2 powi j \<and> 0 \<le> k \<and> k < 2 ^ 53 \<and> - 1074 \<le> j"
proof (cases "round_half_even (x / ulp x) = 2 ^ 53")
  case True
  have "nearest x = of_int (2 ^ 53) * ulp x"
    unfolding nearest_def by (simp only: True)
  then have "nearest x = of_int (2 ^ 52) * 2 powi (binade x - 51)"
    unfolding ulp_def using p2_add[of 1 "binade x - 52"] by simp
  moreover have "- 1074 \<le> binade x - 51" using binade_ge[of x] by simp
  moreover have "(0::int) \<le> 2 ^ 52" "(2::int) ^ 52 < 2 ^ 53" by simp_all
  ultimately show ?thesis by blast
next
  case False
  then have "round_half_even (x / ulp x) < 2 ^ 53" using rhe_bound(2)[OF assms] by simp
  moreover have "- 1074 \<le> binade x - 52" using binade_ge[of x] by simp
  moreover have "nearest x = of_int (round_half_even (x / ulp x)) * 2 powi (binade x - 52)"
    unfolding nearest_def by (simp only: ulp_def)
  ultimately show ?thesis using rhe_bound(1)[OF assms] by blast
qed

lemma round_pos_idem:
  assumes "0 < x" "round_pos x = Fin y"
  shows "to_double y = Fin y"
proof -
  have y: "y = nearest x" and lt: "\<not> 2 powi 1024 \<le> nearest x"
    using assms(2) unfolding round_pos_def by (auto split: if_splits)
  obtain k j where kj: "nearest x = of_int k * 2 powi j" "0 \<le> k" "k < 2 ^ 53" "- 1074 \<le> j"
    using nearest_repr[OF assms(1)] by blast
  have "0 \<le> nearest x" using assms(1) by (intro nearest_nonneg) simp
  then have "\<bar>real_of_int k * 2 powi j\<bar> < 2 powi 1024" using lt kj(1) by linarith
  then have "to_double (of_int k * 2 powi j) = Fin (of_int k * 2 powi j)"
    using kj by (intro to_double_exact) simp_all
  then show ?thesis unfolding y kj(1) .
qed

lemma to_double_idem:
  assumes "to_double x = Fin y"
  shows "to_double y = Fin y"
proof -
  consider "x = 0" | "0 < x" | "x < 0" by linarith
  then show ?thesis
  proof cases
    case 1 then show ?thesis using assms by (simp add: to_double_def)
  next
    case 2
    then have "round_pos x = Fin y" using assms by (simp add: to_double_def)
    then show ?thesis using 2 by (intro round_pos_idem[of x]) simp_all
  next
    case 3
    then have "jneg (round_pos (- x)) = Fin y" using assms by (simp add: to_double_def)
    then have "round_pos (- x) = Fin (- y)" by (cases "round_pos (- x)") simp_all
    then have "to_double (- y) = Fin (- y)" using 3 by (intro round_pos_idem[of "- x"]) simp_all
    then show ?thesis using to_double_neg[of "- y"] by simp
  qed
qed

lemma to_double_pos:
  assumes "2 powi (- 1074) \<le> x"
  shows "to_double x = PInf \<or> (\<exists>y. to_double x = Fin y \<and> 2 powi (- 1074) \<le> y)"
proof -
  have pos: "0 < x" using assms p2_pos[of "- 1074"] by linarith
  have "2 powi (- 1074) \<le> nearest x"
  proof (cases "2 powi (- 1022) \<le> x")
    case True
    have "(2::real) powi (- 1074) \<le> 2 powi (binade x)"
      using binade_ge[of x] by (intro p2_mono) simp
    then show ?thesis using nearest_lower[OF binade_lower[OF True]] by linarith
  next
    case False
    then have b: "binade x = - 1022" using pos by (intro binade_subnormal) simp_all
    then have u: "ulp x = 2 powi (- 1074)" unfolding ulp_def by simp
    then have "of_int 1 \<le> x / ulp x" using assms ulp_pos[of x] by (simp add: le_divide_eq)
    then have "1 \<le> round_half_even (x / ulp x)" by (rule rhe_ge)
    then have "1 * ulp x \<le> nearest x"
      unfolding nearest_def using ulp_pos[of x] by (intro mult_right_mono) simp_all
    then show ?thesis unfolding u by simp
  qed
  then show ?thesis using pos unfolding to_double_def round_pos_def by simp
qed

lemma to_double_eval:
  assumes "0 < x" "2 powi e \<le> x" "x < 2 powi (e + 1)" "- 1022 \<le> e" "e \<le> 1022"
  shows "to_double x = Fin (of_int (round_half_even (x / 2 powi (e - 52))) * 2 powi (e - 52))"
proof -
  have b: "binade x = e" using binade_eq[OF assms(1-3)] assms(4) by simp
  have "nearest x \<le> 2 powi (e + 1)" using assms by (intro round_pos_below) simp_all
  moreover have "(2::real) powi (e + 1) < 2 powi 1024" using assms(5) by (intro p2_strict) simp
  ultimately have "\<not> 2 powi 1024 \<le> nearest x" by linarith
  then have "round_pos x = Fin (nearest x)" unfolding round_pos_def by (simp only: if_False)
  then show ?thesis using assms(1) unfolding to_double_def nearest_def ulp_def b by simp
qed

section \<open>Properties of the Area Calculator\<close>

lemma flat_fold: "foldl (\<lambda>acc p. case p of None \<Rightarrow> acc | Some (x, y) \<Rightarrow> acc @ [x, y]) acc (fin_polygon ps)
  = acc @ concat (map (\<lambda>(x, y). [Fin x, Fin y]) ps)"
  by (induction ps arbitrary: acc) (auto simp: fin_polygon_def)

lemma flattenPoints_fin: "flattenPoints (fin_polygon ps) = concat (map (\<lambda>(x, y). [Fin x, Fin y]) ps)"
  by (simp add: flattenPoints_def flat_fold)

lemma length_concat_pairs: "length (concat (map (\<lambda>(x, y). [Fin x, Fin y]) ps)) = 2 * length ps"
  by (induction ps) auto

lemma length_flattenPoints_fin: "length (flattenPoints (fin_polygon ps)) = 2 * length ps"
  by (simp add: flattenPoints_fin length_concat_pairs)

lemma nth_flat_even: "m < length ps \<Longrightarrow>
  concat (map (\<lambda>(x, y). [Fin x, Fin y]) ps) ! (2 * m) = Fin (fst (ps ! m))"
proof (induction ps arbitrary: m)
  case Nil then show ?case by simp
next
  case (Cons p ps)
  show ?case
  proof (cases m)
    case 0 then show ?thesis by (cases p) simp
  next
    case (Suc k)
    with Cons show ?thesis by (cases p) simp
  qed
qed

lemma nth_flat_odd: "m < length ps \<Longrightarrow>
  concat (map (\<lambda>(x, y). [Fin x, Fin y]) ps) ! Suc (2 * m) = Fin (snd (ps ! m))"
proof (induction ps arbitrary: m)
  case Nil then show ?case by simp
next
  case (Cons p ps)
  show ?case
  proof (cases m)
    case 0 then show ?thesis by (cases p) simp
  next
    case (Suc k)
    with Cons show ?thesis by (cases p) simp
  qed
qed

lemma rd_even: "m < length ps \<Longrightarrow>
  rd (flattenPoints (fin_polygon ps)) (2 * int m) = Fin (fst (ps ! m))"
  using nth_flat_even[of m ps]
  by (simp add: rd_def length_concat_pairs flattenPoints_fin nat_mult_distrib)

lemma rd_odd: "m < length ps \<Longrightarrow>
  rd (flattenPoints (fin_polygon ps)) (2 * int m + 1) = Fin (snd (ps ! m))"
  using nth_flat_odd[of m ps]
  by (simp add: rd_def length_concat_pairs flattenPoints_fin nat_add_distrib nat_mult_distrib)

lemma area_loop_fin:
  "k \<le> length ps \<Longrightarrow> j = 2 * int (prev_index (length ps) k) \<Longrightarrow>
   area_loop (flattenPoints (fin_polygon ps)) (2 * k) j (Fin a) =
     Fin (a + (\<Sum>m\<leftarrow>[k..<length ps]. shoelace_term ps m))"
proof (induction "length ps - k" arbitrary: k j a)
  case 0
  then have "k = length ps" by simp
  then show ?case
    by (subst area_loop.simps) (simp add: length_flattenPoints_fin)
next
  case (Suc d)
  then have lt: "k < length ps" by simp
  then have pv: "prev_index (length ps) k < length ps"
    by (auto simp: prev_index_def)
  have step: "area_loop (flattenPoints (fin_polygon ps)) (2 * k) j (Fin a) =
     area_loop (flattenPoints (fin_polygon ps)) (2 * Suc k) (2 * int (prev_index (length ps) (Suc k)))
       (Fin (a + shoelace_term ps k))"
    using lt rd_even[OF pv] rd_odd[OF pv] rd_even[OF lt] rd_odd[OF lt] Suc.prems(2)
    by (subst area_loop.simps)
       (simp add: length_flattenPoints_fin shoelace_term_def prev_index_def jsub_def Let_def)
  have "area_loop (flattenPoints (fin_polygon ps)) (2 * Suc k) (2 * int (prev_index (length ps) (Suc k)))
       (Fin (a + shoelace_term ps k)) =
     Fin (a + shoelace_term ps k + (\<Sum>m\<leftarrow>[Suc k..<length ps]. shoelace_term ps m))"
    using Suc.hyps(2) lt by (intro Suc.hyps(1)) simp_all
  with step lt show ?case
    by (simp add: upt_conv_Cons)
qed

lemma calculatePolygonArea_fin:
  "calculatePolygonArea (flattenPoints (fin_polygon ps)) = Fin (shoelace_area ps)"
proof -
  have "area_loop (flattenPoints (fin_polygon ps)) (2 * 0)
          (int (length (flattenPoints (fin_polygon ps))) - 2) (Fin 0) =
        Fin (0 + (\<Sum>m\<leftarrow>[0..<length ps]. shoelace_term ps m))"
  proof (cases "ps = []")
    case True
    then show ?thesis
      by (subst area_loop.simps) (simp add: length_flattenPoints_fin)
  next
    case False
    then have "int (length (flattenPoints (fin_polygon ps))) - 2 = 2 * int (prev_index (length ps) 0)"
      by (cases ps) (simp_all add: length_flattenPoints_fin prev_index_def)
    then show ?thesis
      using area_loop_fin[of 0 ps _ 0] by simp
  qed
  then show ?thesis
    by (simp add: calculatePolygonArea_def shoelace_area_def)
qed

lemma shoelace_area_nonneg: "0 \<le> shoelace_area ps"
  by (simp add: shoelace_area_def)

lemma cyclic_shift_sum:
  "(\<Sum>i\<leftarrow>[0..<n]. f (prev_index n i)) = (\<Sum>i\<leftarrow>[0..<n]. (f i :: real))"
proof (cases n)
  case 0 then show ?thesis by simp
next
  case (Suc m)
  have a: "[0..<Suc m] = 0 # map Suc [0..<m]"
    by (simp only: upt_conv_Cons[of 0 "Suc m"] map_Suc_upt zero_less_Suc)
  have "(\<Sum>i\<leftarrow>[0..<Suc m]. f (prev_index (Suc m) i)) = f m + (\<Sum>i\<leftarrow>[0..<m]. f i)"
    unfolding a by (simp add: prev_index_def comp_def del: upt_Suc)
  then show ?thesis using Suc by simp
qed

lemma shoelace_rectangle:
  "shoelace_area [(x0, y0), (x0 + w, y0), (x0 + w, y0 + h), (x0, y0 + h)] = \<bar>w * h\<bar>"
proof -
  have "shoelace_area [(x0, y0), (x0 + w, y0), (x0 + w, y0 + h), (x0, y0 + h)]
     = \<bar>(x0 + x0) * (y0 + h - y0) + (x0 + (x0 + w)) * (y0 - y0)
       + (x0 + w + (x0 + w)) * (y0 - (y0 + h)) + (x0 + w + x0) * (y0 + h - (y0 + h))\<bar> / 2"
    by (simp add: shoelace_area_def shoelace_term_def prev_index_def)
  also have "(x0 + x0) * (y0 + h - y0) + (x0 + (x0 + w)) * (y0 - y0)
       + (x0 + w + (x0 + w)) * (y0 - (y0 + h)) + (x0 + w + x0) * (y0 + h - (y0 + h))
     = - 2 * (w * h)"
    by (simp add: algebra_simps)
  finally show ?thesis
    by (simp add: abs_mult)
qed

lemma shoelace_collinear:
  "shoelace_area (map (\<lambda>t. (a + t * u, b + t * v)) ts) = 0"
proof -
  let ?ps = "map (\<lambda>t. (a + t * u, b + t * v)) ts"
  let ?g = "\<lambda>i. 2 * a * v * (ts ! i) + u * v * (ts ! i * ts ! i)"
  have "\<And>i. i < length ts \<Longrightarrow>
          shoelace_term ?ps i = ?g (prev_index (length ts) i) - ?g i"
  proof -
    fix i assume i: "i < length ts"
    then have j: "prev_index (length ts) i < length ts" by (auto simp: prev_index_def)
    have "shoelace_term ?ps i =
       (a + ts ! prev_index (length ts) i * u + (a + ts ! i * u))
       * (b + ts ! prev_index (length ts) i * v - (b + ts ! i * v))"
      using i j by (simp add: shoelace_term_def Let_def)
    also have "\<dots> = ?g (prev_index (length ts) i) - ?g i"
      by (simp add: algebra_simps)
    finally show "shoelace_term ?ps i = ?g (prev_index (length ts) i) - ?g i" .
  qed
  then have "map (shoelace_term ?ps) [0..<length ts] =
             map (\<lambda>i. ?g (prev_index (length ts) i) - ?g i) [0..<length ts]"
    by simp
  then have "(\<Sum>i\<leftarrow>[0..<length ts]. shoelace_term ?ps i) =
        (\<Sum>i\<leftarrow>[0..<length ts]. ?g (prev_index (length ts) i)) - (\<Sum>i\<leftarrow>[0..<length ts]. ?g i)"
    by (simp only: sum_list_subtractf)
  also have "\<dots> = 0"
    using cyclic_shift_sum[of ?g "length ts"] by simp
  finally show ?thesis by (simp add: shoelace_area_def)
qed

lemma fsub_Fin: "fsub (Fin a) (Fin b) = to_double (a - b)"
  by (simp add: fsub_def)

lemma fadd_int:
  "\<bar>a + b\<bar> < 2 ^ 53 \<Longrightarrow> fadd (Fin (of_int a)) (Fin (of_int b)) = Fin (of_int (a + b))"
  using to_double_int[of "a + b"] by simp

lemma fsub_int:
  "\<bar>a - b\<bar> < 2 ^ 53 \<Longrightarrow> fsub (Fin (of_int a)) (Fin (of_int b)) = Fin (of_int (a - b))"
  using to_double_int[of "a - b"] by (simp add: fsub_Fin)

lemma fmul_int:
  "\<bar>a * b\<bar> < 2 ^ 53 \<Longrightarrow> fmul (Fin (of_int a)) (Fin (of_int b)) = Fin (of_int (a * b))"
  using to_double_int[of "a * b"] by simp

lemma area_loop_fp_fold:
  "k \<le> length ps \<Longrightarrow> j = 2 * int (prev_index (length ps) k) \<Longrightarrow>
   area_loop_fp (flattenPoints (fin_polygon ps)) (2 * k) j acc =
     foldl (\<lambda>sum i. fadd sum (shoelace_term_fp ps i)) acc [k..<length ps]"
proof (induction "length ps - k" arbitrary: k j acc)
  case 0
  then have "k = length ps" by simp
  then show ?case
    by (subst area_loop_fp.simps) (simp add: length_flattenPoints_fin)
next
  case (Suc d)
  then have lt: "k < length ps" by simp
  then have pv: "prev_index (length ps) k < length ps"
    by (auto simp: prev_index_def)
  have step: "area_loop_fp (flattenPoints (fin_polygon ps)) (2 * k) j acc =
     area_loop_fp (flattenPoints (fin_polygon ps)) (2 * Suc k)
       (2 * int (prev_index (length ps) (Suc k))) (fadd acc (shoelace_term_fp ps k))"
    using lt rd_even[OF pv] rd_odd[OF pv] rd_even[OF lt] rd_odd[OF lt] Suc.prems(2)
    by (subst area_loop_fp.simps)
       (simp add: length_flattenPoints_fin shoelace_term_fp_def prev_index_def Let_def)
  have "area_loop_fp (flattenPoints (fin_polygon ps)) (2 * Suc k)
       (2 * int (prev_index (length ps) (Suc k))) (fadd acc (shoelace_term_fp ps k)) =
     foldl (\<lambda>sum i. fadd sum (shoelace_term_fp ps i)) (fadd acc (shoelace_term_fp ps k))
       [Suc k..<length ps]"
    using Suc.hyps(2) lt by (intro Suc.hyps(1)) simp_all
  with step lt show ?case
    by (simp add: upt_conv_Cons)
qed

lemma calculatePolygonArea_fp_fin:
  "calculatePolygonArea_fp (flattenPoints (fin_polygon ps)) = shoelace_area_fp ps"
proof -
  have "area_loop_fp (flattenPoints (fin_polygon ps)) (2 * 0)
          (int (length (flattenPoints (fin_polygon ps))) - 2) (Fin 0) =
        foldl (\<lambda>sum i. fadd sum (shoelace_term_fp ps i)) (Fin 0) [0..<length ps]"
  proof (cases "ps = []")
    case True
    then show ?thesis
      by (subst area_loop_fp.simps) (simp add: length_flattenPoints_fin)
  next
    case False
    then have "int (length (flattenPoints (fin_polygon ps))) - 2 = 2 * int (prev_index (length ps) 0)"
      by (cases ps) (simp_all add: length_flattenPoints_fin prev_index_def)
    then show ?thesis
      using area_loop_fp_fold[of 0 ps _ "Fin 0"] by simp
  qed
  then show ?thesis
    by (simp add: calculatePolygonArea_fp_def shoelace_area_fp_def)
qed

text \<open>Exactness on whole-number coordinates.\<close>

lemma int_points_nth:
  "i < length qs \<Longrightarrow> int_points qs ! i = (of_int (fst (qs ! i)), of_int (snd (qs ! i)))"
  by (simp add: int_points_def case_prod_beta)

lemma length_int_points: "length (int_points qs) = length qs"
  by (simp add: int_points_def)

lemma abs_mult_le:
  fixes a b :: int
  assumes "\<bar>a\<bar> \<le> c" "\<bar>b\<bar> \<le> d"
  shows "\<bar>a * b\<bar> \<le> c * d"
proof -
  have "\<bar>a\<bar> * \<bar>b\<bar> \<le> c * d" using assms by (intro mult_mono) auto
  then show ?thesis by (simp add: abs_mult)
qed

lemma shoelace_term_int:
  assumes "i < length qs" and "\<forall>q \<in> set qs. \<bar>fst q\<bar> \<le> M \<and> \<bar>snd q\<bar> \<le> M"
    and "4 * M * M < 2 ^ 53" and "1 \<le> M"
  shows "\<exists>t. shoelace_term_fp (int_points qs) i = Fin (of_int t)
            \<and> shoelace_term (int_points qs) i = of_int t \<and> \<bar>t\<bar> \<le> 4 * M * M"
proof -
  let ?j = "prev_index (length qs) i"
  have j: "?j < length qs" using assms(1) by (auto simp: prev_index_def)
  have bi: "\<bar>fst (qs ! i)\<bar> \<le> M" "\<bar>snd (qs ! i)\<bar> \<le> M"
    using assms(2) nth_mem[OF assms(1)] by auto
  have bj: "\<bar>fst (qs ! ?j)\<bar> \<le> M" "\<bar>snd (qs ! ?j)\<bar> \<le> M"
    using j assms(2) nth_mem[OF j] by auto
  let ?sx = "fst (qs ! ?j) + fst (qs ! i)"
  let ?dy = "snd (qs ! ?j) - snd (qs ! i)"
  have sx: "\<bar>?sx\<bar> \<le> 2 * M" using bi bj by linarith
  have dy: "\<bar>?dy\<bar> \<le> 2 * M" using bi bj by linarith
  have "2 * M \<le> 4 * M * M" using assms(4) by (simp add: mult_le_cancel_left1 algebra_simps)
  then have small: "2 * M < 2 ^ 53" using assms(3) by linarith
  have pr: "\<bar>?sx * ?dy\<bar> \<le> 4 * M * M" using abs_mult_le[OF sx dy] by (simp add: algebra_simps)
  have "shoelace_term_fp (int_points qs) i
      = fmul (fadd (Fin (of_int (fst (qs ! ?j)))) (Fin (of_int (fst (qs ! i)))))
             (fsub (Fin (of_int (snd (qs ! ?j)))) (Fin (of_int (snd (qs ! i)))))"
    using assms(1) j by (simp add: shoelace_term_fp_def Let_def length_int_points int_points_nth)
  also have "\<dots> = fmul (Fin (of_int ?sx)) (Fin (of_int ?dy))"
    using sx dy small by (simp only: fadd_int fsub_int)
  also have "\<dots> = Fin (of_int (?sx * ?dy))"
    using pr assms(3) by (intro fmul_int) linarith
  finally have a: "shoelace_term_fp (int_points qs) i = Fin (of_int (?sx * ?dy))" .
  have b: "shoelace_term (int_points qs) i = of_int (?sx * ?dy)"
    using assms(1) j by (simp add: shoelace_term_def Let_def length_int_points int_points_nth)
  from a b pr show ?thesis by blast
qed

lemma foldl_shoelace_int:
  assumes "\<forall>q \<in> set qs. \<bar>fst q\<bar> \<le> M \<and> \<bar>snd q\<bar> \<le> M" and "1 \<le> M"
  shows "set is \<subseteq> {..<length qs} \<Longrightarrow> \<bar>s\<bar> + 4 * M * M * int (length is) < 2 ^ 53 \<Longrightarrow>
     \<exists>s'. foldl (\<lambda>sum i. fadd sum (shoelace_term_fp (int_points qs) i)) (Fin (of_int s)) is
            = Fin (of_int s')
         \<and> of_int s' = of_int s + (\<Sum>i\<leftarrow>is. shoelace_term (int_points qs) i)
         \<and> \<bar>s'\<bar> \<le> \<bar>s\<bar> + 4 * M * M * int (length is)"
proof (induction "is" arbitrary: s)
  case Nil
  then show ?case by simp
next
  case (Cons i "is")
  have i: "i < length qs" using Cons.prems(1) by simp
  have mm: "0 \<le> 4 * M * M" using assms(2) by simp
  have len: "0 \<le> 4 * M * M * int (length is)" using mm by simp
  have m53: "4 * M * M < 2 ^ 53"
    using Cons.prems(2) len by (simp add: algebra_simps) 
  obtain t where t: "shoelace_term_fp (int_points qs) i = Fin (of_int t)"
      "shoelace_term (int_points qs) i = of_int t" "\<bar>t\<bar> \<le> 4 * M * M"
    using shoelace_term_int[OF i assms(1) m53 assms(2)] by blast
  have st: "\<bar>s + t\<bar> \<le> \<bar>s\<bar> + 4 * M * M" using t(3) by linarith
  have "\<bar>s + t\<bar> + 4 * M * M * int (length is) \<le> \<bar>s\<bar> + 4 * M * M * int (length (i # is))"
    using st by (simp add: algebra_simps)
  then have b2: "\<bar>s + t\<bar> + 4 * M * M * int (length is) < 2 ^ 53"
    using Cons.prems(2) by linarith
  then have "\<bar>s + t\<bar> < 2 ^ 53" using len by linarith
  then have step: "fadd (Fin (of_int s)) (Fin (of_int t)) = Fin (of_int (s + t))"
    by (rule fadd_int)
  obtain s' where s': "foldl (\<lambda>sum i. fadd sum (shoelace_term_fp (int_points qs) i))
        (Fin (of_int (s + t))) is = Fin (of_int s')"
      "real_of_int s' = of_int (s + t) + (\<Sum>i\<leftarrow>is. shoelace_term (int_points qs) i)"
      "\<bar>s'\<bar> \<le> \<bar>s + t\<bar> + 4 * M * M * int (length is)"
    using Cons.IH[of "s + t"] Cons.prems(1) b2 by auto
  have "\<bar>s'\<bar> \<le> \<bar>s\<bar> + 4 * M * M * int (length (i # is))"
    using s'(3) st by (simp add: algebra_simps)
  then show ?case using s'(1,2) t(1,2) step by (intro exI[of _ s']) simp
qed

lemma shoelace_area_fp_int:
  assumes "\<forall>q \<in> set qs. \<bar>fst q\<bar> \<le> M \<and> \<bar>snd q\<bar> \<le> M" and "1 \<le> M"
    and "4 * M * M * int (length qs) < 2 ^ 53"
  shows "shoelace_area_fp (int_points qs) = Fin (shoelace_area (int_points qs))"
proof -
  have "\<exists>s'. foldl (\<lambda>sum i. fadd sum (shoelace_term_fp (int_points qs) i)) (Fin (of_int 0))
            [0..<length qs] = Fin (of_int s')
         \<and> of_int s' = of_int 0 + (\<Sum>i\<leftarrow>[0..<length qs]. shoelace_term (int_points qs) i)
         \<and> \<bar>s'\<bar> \<le> \<bar>0\<bar> + 4 * M * M * int (length [0..<length qs])"
    using assms(3) by (intro foldl_shoelace_int[OF assms(1,2)]) auto
  then obtain s' where s': "foldl (\<lambda>sum i. fadd sum (shoelace_term_fp (int_points qs) i)) (Fin 0)
            [0..<length qs] = Fin (of_int s')"
      "real_of_int s' = (\<Sum>i\<leftarrow>[0..<length qs]. shoelace_term (int_points qs) i)"
      "\<bar>s'\<bar> \<le> 4 * M * M * int (length qs)"
    by auto
  have "\<bar>s'\<bar> < 2 ^ 53" using s'(3) assms(3) by linarith
  then have "fdiv (Fin (of_int s')) (Fin 2) = Fin (of_int s' / 2)"
    using to_double_half_int[of s'] by simp
  then show ?thesis
    unfolding shoelace_area_fp_def shoelace_area_def length_int_points s'(1) s'(2)[symmetric]
    by simp
qed

lemma td1: "to_double 36028798063501156 = Fin 36028798063501152"
  using to_double_eval[of 36028798063501156 55]
  by (simp add: round_half_even_def Let_def)

lemma td2: "to_double 9007199515875289 = Fin 9007199515875288"
  using to_double_eval[of 9007199515875289 53]
  by (simp add: round_half_even_def Let_def)

lemma td3: "to_double 27021598547625867 = Fin 27021598547625868"
  using to_double_eval[of 27021598547625867 54]
  by (simp add: round_half_even_def Let_def)

lemma td4: "to_double 36028798063501152 = Fin 36028798063501152"
  using to_double_eval[of 36028798063501152 55]
  by (simp add: round_half_even_def Let_def)

lemma td5: "to_double 27021598547625864 = Fin 27021598547625864"
  using to_double_eval[of 27021598547625864 54]
  by (simp add: round_half_even_def Let_def)

lemma td_small: "to_double 189812534 = Fin 189812534" "to_double 94906267 = Fin 94906267"
  "to_double 284718801 = Fin 284718801" "to_double 4 = Fin 4" "to_double 2 = Fin 2"
  using to_double_int[of 189812534] to_double_int[of 94906267] to_double_int[of 284718801]
    to_double_int[of 4] to_double_int[of 2]
  by simp_all

lemma collinear_fp:
  "shoelace_area_fp [(0, 0), (94906267, 94906267), (189812534, 189812534)] = Fin 2"
proof -
  let ?ps = "[(0 :: real, 0 :: real), (94906267, 94906267), (189812534, 189812534)]"
  have t0: "shoelace_term_fp ?ps 0 = Fin 36028798063501152"
    by (simp add: shoelace_term_fp_def prev_index_def fsub_Fin td_small td1)
  have t1: "shoelace_term_fp ?ps (Suc 0) = Fin (- 9007199515875288)"
    using to_double_neg[of 94906267] to_double_neg[of 9007199515875289]
    by (simp add: shoelace_term_fp_def prev_index_def fsub_Fin td_small td2)
  have t2: "shoelace_term_fp ?ps 2 = Fin (- 27021598547625868)"
    using to_double_neg[of 94906267] to_double_neg[of 27021598547625867]
    by (simp add: shoelace_term_fp_def prev_index_def fsub_Fin td_small td3)
  have u: "[0..<length ?ps] = [0, 1, 2]" by code_simp
  have "foldl (\<lambda>sum i. fadd sum (shoelace_term_fp ?ps i)) (Fin 0) [0..<length ?ps] = Fin (- 4)"
    unfolding u using to_double_neg[of 4] by (simp add: t0 t1 t2 td4 td5 td_small)
  then show ?thesis
    unfolding shoelace_area_fp_def using to_double_neg[of 2] by (simp add: td_small)
qed

lemma p2_double: "(2::real) powi e + 2 powi e = 2 powi (e + 1)"
  using p2_add[of e 1] by simp

lemma to_double_bounded:
  assumes "\<bar>x\<bar> \<le> 2 powi e" "- 1074 \<le> e" "e \<le> 1021"
  shows "\<exists>y. to_double x = Fin y \<and> \<bar>y\<bar> \<le> 2 powi (e + 1)"
proof -
  have "(2::real) powi e < 2 powi 1023" using assms(3) by (intro p2_strict) simp
  then have "\<bar>x\<bar> < 2 powi 1023" using assms(1) by linarith
  then obtain y where y: "to_double x = Fin y"
      "\<bar>y - x\<bar> \<le> \<bar>x\<bar> * 2 powi (- 53) + 2 powi (- 1075)"
    using to_double_fin[of x] by blast
  have "(2::real) powi (- 53) \<le> 2 powi (- 1)" by (intro p2_mono) simp
  then have "\<bar>x\<bar> * 2 powi (- 53) \<le> 2 powi e * 2 powi (- 1)"
    using assms(1) by (intro mult_mono) auto
  also have "\<dots> = 2 powi (e - 1)" using p2_add[of e "- 1"] by simp
  finally have a: "\<bar>x\<bar> * 2 powi (- 53) \<le> 2 powi (e - 1)" .
  have b: "(2::real) powi (- 1075) \<le> 2 powi (e - 1)" using assms(2) by (intro p2_mono) simp
  have "(2::real) powi (e - 1) + 2 powi (e - 1) = 2 powi e" using p2_double[of "e - 1"] by simp
  then have "\<bar>y - x\<bar> \<le> 2 powi e" using y(2) a b by linarith
  then have "\<bar>y\<bar> \<le> 2 powi e + 2 powi e" using assms(1) by linarith
  then show ?thesis using y(1) p2_double[of e] by auto
qed

lemma fmul_neg_right:
  assumes "fmul (Fin a) (Fin b) = Fin c"
  shows "fmul (Fin a) (Fin (- b)) = Fin (- c)"
  using assms to_double_neg[of "a * b"] by simp

lemma shoelace_two_points_fp:
  assumes "\<bar>x0\<bar> \<le> 2 powi 500" "\<bar>y0\<bar> \<le> 2 powi 500" "\<bar>x1\<bar> \<le> 2 powi 500" "\<bar>y1\<bar> \<le> 2 powi 500"
  shows "shoelace_area_fp [(x0, y0), (x1, y1)] = Fin 0"
proof -
  let ?ps = "[(x0, y0), (x1, y1)]"
  have "\<bar>x1 + x0\<bar> \<le> 2 powi 500 + 2 powi 500" using assms by linarith
  then have "\<bar>x1 + x0\<bar> \<le> 2 powi 501" using p2_double[of 500] by simp
  then obtain a where a: "to_double (x1 + x0) = Fin a" "\<bar>a\<bar> \<le> 2 powi 502"
    using to_double_bounded[of "x1 + x0" 501] by auto
  have "\<bar>y1 - y0\<bar> \<le> 2 powi 500 + 2 powi 500" using assms by linarith
  then have "\<bar>y1 - y0\<bar> \<le> 2 powi 501" using p2_double[of 500] by simp
  then obtain b where b: "to_double (y1 - y0) = Fin b" "\<bar>b\<bar> \<le> 2 powi 502"
    using to_double_bounded[of "y1 - y0" 501] by auto
  have "\<bar>a\<bar> * \<bar>b\<bar> \<le> 2 powi 502 * 2 powi 502" using a(2) b(2) by (intro mult_mono) auto
  also have "\<dots> = 2 powi 1004" using p2_add[of 502 502] by simp
  finally have "\<bar>a * b\<bar> \<le> 2 powi 1004" by (simp add: abs_mult)
  then obtain c where c: "to_double (a * b) = Fin c"
    using to_double_bounded[of "a * b" 1004] by auto
  have b': "to_double (y0 - y1) = Fin (- b)"
    using to_double_neg[of "y1 - y0"] b(1) by simp
  have a': "to_double (x0 + x1) = Fin a" using a(1) by (simp add: add.commute)
  have t0: "shoelace_term_fp ?ps 0 = Fin c"
    by (simp add: shoelace_term_fp_def prev_index_def fsub_Fin a(1) b(1) c)
  have t1: "shoelace_term_fp ?ps (Suc 0) = Fin (- c)"
    using to_double_neg[of "a * b"]
    by (simp add: shoelace_term_fp_def prev_index_def fsub_Fin a' b' c)
  have cc: "to_double c = Fin c" using c by (rule to_double_idem)
  have u: "[0..<length ?ps] = [0, Suc 0]" by code_simp
  have "foldl (\<lambda>sum i. fadd sum (shoelace_term_fp ?ps i)) (Fin 0) [0..<length ?ps] = Fin 0"
    unfolding u by (simp add: t0 t1 cc to_double_zero)
  then show ?thesis
    unfolding shoelace_area_fp_def by (simp add: to_double_zero)
qed

lemma shoelace_unit_square: "shoelace_area [(0, 0), (1, 0), (1, 1), (0, 1)] = 1"
  using shoelace_rectangle[of 0 0 1 1] by simp

lemma shoelace_3_by_4: "shoelace_area [(0, 0), (3, 0), (3, 4), (0, 4)] = 12"
  using shoelace_rectangle[of 0 0 3 4] by simp

lemma int_points_collinear:
  "int_points (map (\<lambda>t. (a + t * u, b + t * v)) ts) =
   map (\<lambda>t. (of_int a + t * of_int u, of_int b + t * of_int v)) (map of_int ts)"
  by (simp add: int_points_def comp_def)

lemma shoelace_collinear_int:
  "shoelace_area (int_points (map (\<lambda>t. (a + t * u, b + t * v)) ts)) = 0"
  unfolding int_points_collinear by (rule shoelace_collinear)

lemma int_points_unit_square:
  "int_points [(0, 0), (1, 0), (1, 1), (0, 1)] = [(0, 0), (1, 0), (1, 1), (0, 1)]"
  by (simp add: int_points_def)

lemma int_points_3_by_4:
  "int_points [(0, 0), (3, 0), (3, 4), (0, 4)] = [(0, 0), (3, 0), (3, 4), (0, 4)]"
  by (simp add: int_points_def)

text \<open>
  Claim C6 (amended). \<open>calculatePolygonArea\<close> evaluates the shoelace formula on the
  flattened point sequence in double precision: on finite points \<open>(x0,y0) \<dots> (xn-1,yn-1)\<close>
  it returns \<open>|\<Sum> (x[j] + x[i]) * (y[j] - y[i])| / 2\<close> with \<open>j\<close> the previous index (wrapping
  around), every sum, difference and product rounded to the nearest double and the terms
  added from left to right. The result is the exact shoelace area when the coordinates are
  whole numbers of magnitude at most \<open>M\<close> with \<open>4 * M * M * n < 2^53\<close>: the unit square
  gives 1, the 3 by 4 rectangle gives 12, and collinear points give 0. Two points with
  coordinates of magnitude at most \<open>2^500\<close> give 0. Being a total function of the model, it
  never throws.
\<close>

theorem calculatePolygonArea_shoelace:
  "calculatePolygonArea_fp (flattenPoints (fin_polygon ps)) = shoelace_area_fp ps
   \<and> ((\<forall>q \<in> set qs. \<bar>fst q\<bar> \<le> M \<and> \<bar>snd q\<bar> \<le> M) \<and> 1 \<le> M
        \<and> 4 * M * M * int (length qs) < 2 ^ 53 \<longrightarrow>
        calculatePolygonArea_fp (flattenPoints (fin_polygon (int_points qs)))
          = Fin (shoelace_area (int_points qs)))
   \<and> calculatePolygonArea_fp (flattenPoints (fin_polygon [(0, 0), (1, 0), (1, 1), (0, 1)])) = Fin 1
   \<and> calculatePolygonArea_fp (flattenPoints (fin_polygon [(0, 0), (3, 0), (3, 4), (0, 4)])) = Fin 12
   \<and> ((\<forall>t \<in> set ts. \<bar>a + t * u\<bar> \<le> M \<and> \<bar>b + t * v\<bar> \<le> M) \<and> 1 \<le> M
        \<and> 4 * M * M * int (length ts) < 2 ^ 53 \<longrightarrow>
        calculatePolygonArea_fp (flattenPoints (fin_polygon
          (int_points (map (\<lambda>t. (a + t * u, b + t * v)) ts)))) = Fin 0)
   \<and> (\<bar>x0\<bar> \<le> 2 powi 500 \<and> \<bar>y0\<bar> \<le> 2 powi 500 \<and> \<bar>x1\<bar> \<le> 2 powi 500 \<and> \<bar>y1\<bar> \<le> 2 powi 500 \<longrightarrow>
        calculatePolygonArea_fp (flattenPoints (fin_polygon [(x0, y0), (x1, y1)])) = Fin 0)"
proof -
  have sq: "shoelace_area_fp [(0, 0), (1, 0), (1, 1), (0, 1)] = Fin 1"
    using shoelace_area_fp_int[of "[(0, 0), (1, 0), (1, 1), (0, 1)]" 1]
    by (simp add: int_points_unit_square shoelace_unit_square)
  have r34: "shoelace_area_fp [(0, 0), (3, 0), (3, 4), (0, 4)] = Fin 12"
    using shoelace_area_fp_int[of "[(0, 0), (3, 0), (3, 4), (0, 4)]" 4]
    by (simp add: int_points_3_by_4 shoelace_3_by_4)
  have col: "(\<forall>t \<in> set ts. \<bar>a + t * u\<bar> \<le> M \<and> \<bar>b + t * v\<bar> \<le> M) \<and> 1 \<le> M
        \<and> 4 * M * M * int (length ts) < 2 ^ 53 \<longrightarrow>
        shoelace_area_fp (int_points (map (\<lambda>t. (a + t * u, b + t * v)) ts)) = Fin 0"
    using shoelace_area_fp_int[of "map (\<lambda>t. (a + t * u, b + t * v)) ts" M]
    by (simp add: shoelace_collinear_int)
  show ?thesis
    unfolding calculatePolygonArea_fp_fin
    using shoelace_area_fp_int[of qs M] shoelace_two_points_fp[of x0 y0 x1 y1] sq r34 col
    by (simp only: simp_thms) blast
qed

text \<open>
  Witness for C6: the 3 by 4 rectangle, three points on the line \<open>y = 2 x\<close>, and the two
  points \<open>(1, 2)\<close> and \<open>(3, 5)\<close>.
\<close>

theorem calculatePolygonArea_shoelace_witness:
  "(4 :: int) * 4 * 4 * int (length [(0 :: int, 0 :: int), (3, 0), (3, 4), (0, 4)]) < 2 ^ 53
   \<and> calculatePolygonArea_fp (flattenPoints (fin_polygon
        (int_points [(0, 0), (3, 0), (3, 4), (0, 4)]))) = Fin 12
   \<and> calculatePolygonArea_fp (flattenPoints (fin_polygon
        (int_points (map (\<lambda>t. (0 + t * 1, 0 + t * 2)) [0, 1, 2])))) = Fin 0
   \<and> \<bar>1 :: real\<bar> \<le> 2 powi 500 \<and> \<bar>5 :: real\<bar> \<le> 2 powi 500
   \<and> calculatePolygonArea_fp (flattenPoints (fin_polygon [(1, 2), (3, 5)])) = Fin 0"
proof -
  have p: "(1 :: real) \<le> 2 powi 500" "(2 :: real) \<le> 2 powi 500" "(3 :: real) \<le> 2 powi 500"
    "(5 :: real) \<le> 2 powi 500"
    using p2_mono[of 3 500] by simp_all
  note t = calculatePolygonArea_shoelace[where ps = "[]" and qs = "[(0, 0), (3, 0), (3, 4), (0, 4)]"
      and M = 4 and a = 0 and b = 0 and u = 1 and v = 2 and ts = "[0, 1, 2]"
      and ?x0.0 = 1 and ?y0.0 = 2 and ?x1.0 = 3 and ?y1.0 = 5]
  have a: "calculatePolygonArea_fp (flattenPoints (fin_polygon
        (int_points [(0, 0), (3, 0), (3, 4), (0, 4)]))) = Fin 12"
    using t by (simp add: int_points_3_by_4 shoelace_3_by_4)
  have b: "calculatePolygonArea_fp (flattenPoints (fin_polygon
        (int_points (map (\<lambda>t. (0 + t * 1, 0 + t * 2)) [0, 1, 2])))) = Fin 0"
    using t by simp
  have c: "calculatePolygonArea_fp (flattenPoints (fin_polygon [(1, 2), (3, 5)])) = Fin 0"
    using t p by simp
  from a b c p show ?thesis by simp
qed

text \<open>
  Counterexample to C6 as stated. The three points \<open>(0, 0)\<close>, \<open>(94906267, 94906267)\<close> and
  \<open>(189812534, 189812534)\<close> lie on the line \<open>y = x\<close>, so their shoelace area is 0; the
  products of the loop exceed \<open>2^53\<close> and are rounded, and the function returns 2.
\<close>

theorem collinear_area_nonzero:
  "shoelace_area [(0, 0), (94906267, 94906267), (189812534, 189812534)] = 0
   \<and> calculatePolygonArea_fp (flattenPoints (fin_polygon
        [(0, 0), (94906267, 94906267), (189812534, 189812534)])) = Fin 2"
proof -
  have "shoelace_area [(0, 0), (94906267, 94906267), (189812534, 189812534)] = 0"
    by (simp add: shoelace_area_def shoelace_term_def prev_index_def)
  then show ?thesis
    by (simp only: calculatePolygonArea_fp_fin collinear_fp simp_thms)
qed

section \<open>Properties of the Vertex Editor\<close>

lemma jadd_commute: "jadd a b = jadd b a"
  by (cases a; cases b) simp_all





lemma jsum_Fin: "jsum (map Fin as) = Fin (sum_list as)"
  by (induction as) simp_all





lemma array_set_fin:
  "vi < length ps \<Longrightarrow>
   array_set (fin_polygon ps) vi (Fin x, Fin y) = fin_polygon (ps[vi := (x, y)])"
  by (simp add: array_set_def fin_polygon_def map_update)

lemma no_None_fin: "None \<notin> set (fin_polygon ps)"
  by (auto simp: fin_polygon_def)

lemma no_undefined_fin:
  "None \<notin> set ((fin_polygon ps)[vi := Some (Fin x, Fin y)])"
proof (cases "vi < length ps")
  case True
  then have "(fin_polygon ps)[vi := Some (Fin x, Fin y)] = fin_polygon (ps[vi := (x, y)])"
    by (simp add: fin_polygon_def map_update)
  then show ?thesis by (simp add: no_None_fin)
next
  case False
  then have "(fin_polygon ps)[vi := Some (Fin x, Fin y)] = fin_polygon ps"
    by (simp add: fin_polygon_def list_update_beyond)
  then show ?thesis by (simp add: no_None_fin)
qed

lemma js_round_10: "js_round 10 = 10"
proof -
  have "\<lfloor>(10::real) + 1 / 2\<rfloor> = 10" by linarith
  then show ?thesis by (simp add: js_round_def)
qed

lemma js_round_mono: "v \<le> w \<Longrightarrow> js_round v \<le> js_round w"
  by (simp add: js_round_def floor_mono)

lemma round_max_10: "js_round (max 10 v) = max 10 (js_round v)"
proof (cases "v \<le> 10")
  case True
  then have "js_round v \<le> 10" using js_round_mono[of v 10] by (simp add: js_round_10)
  with True show ?thesis by (simp add: max_absorb1 js_round_10)
next
  case False
  then have "10 \<le> js_round v" using js_round_mono[of 10 v] by (simp add: js_round_10)
  with False show ?thesis by (simp add: max_absorb2)
qed

lemma or_else_Fin_1: "or_else (Fin v) (Fin 1) = Fin (if v = 0 then 1 else v)"
  by (simp add: or_else_def truthy_def)

lemma Math_max_Fin: "Math_max (Fin v) (Fin w) = Fin (max v w)"
  by (simp add: Math_max_def max_def)

lemma Math_min_Fin: "Math_min (Fin v) (Fin w) = Fin (min v w)"
  by (simp add: Math_min_def min_def)

lemma Math_round_Fin: "Math_round (Fin v) = Fin (js_round v)"
  by (simp add: js_round_def)

lemma new_area_sqft_fin:
  "Math_round (Math_max (Fin 10) (jmul (Fin newPix)
      (jdiv (Fin a) (or_else (Fin oldPix) (Fin 1))))) = Fin (spec_area_sqft a oldPix newPix)"
proof -
  have "jdiv (Fin a) (or_else (Fin oldPix) (Fin 1)) = Fin (a / (if oldPix = 0 then 1 else oldPix))"
    by (simp add: or_else_Fin_1)
  then show ?thesis
    by (simp only: jmul.simps Math_max_Fin Math_round_Fin round_max_10 spec_area_sqft_def Let_def)
qed

lemma handleDragVertex_valid:
  assumes "findIndex rs roomId = Some k"
    and "polygon (rs ! k) = fin_polygon ps"
    and "vi < length ps"
    and "area_sqft (rs ! k) = Fin a"
  shows "handleDragVertex md rs roomId vi (Fin x, Fin y) =
     (let newRoom = (rs ! k)\<lparr>polygon := fin_polygon (ps[vi := (x, y)]),
            area_sqft := Fin (spec_area_sqft a (shoelace_area ps) (shoelace_area (ps[vi := (x, y)])))\<rparr>
      in Inr (rs[k := newRoom],
              Some (md\<lparr>rooms := rs[k := newRoom],
                       total_area_sqft := sum_area_sqft (rs[k := newRoom])\<rparr>)))"
  using assms
  by (simp add: handleDragVertex_def Let_def no_undefined_fin array_set_fin
      calculatePolygonArea_fin new_area_sqft_fin)

lemma findIndex_from_None:
  "(findIndex_from rs roomId k0 = None) =
   (\<forall>i<length rs. \<not> (id_matches (id_r (rs ! i)) roomId \<or> strict_eq (Fin (real (k0 + i))) roomId))"
proof (induction rs arbitrary: k0)
  case Nil then show ?case by simp
next
  case (Cons r rs)
  show ?case
    by (simp add: Cons.IH All_less_Suc2 del: of_nat_add of_nat_Suc)
qed

lemma findIndex_None: "(findIndex rs roomId = None) = (\<forall>k<length rs. \<not> room_matches rs roomId k)"
  using findIndex_from_None[of rs roomId 0] by (simp add: findIndex_def room_matches_def)

lemma handleDragVertex_not_found:
  "findIndex rs roomId = None \<Longrightarrow> handleDragVertex md rs roomId vi p = Inr (rs, None)"
  by (simp add: handleDragVertex_def)

lemma handleDragVertex_emitted:
  "handleDragVertex md rs roomId vi p = Inr (rs', Some snap) \<Longrightarrow>
   rooms snap = rs' \<and> total_area_sqft snap = sum_area_sqft rs'"
  by (auto simp: handleDragVertex_def Let_def split: option.splits if_splits)



lemma spec_area_sqft_ge_10: "10 \<le> spec_area_sqft a oldPix newPix"
  by (simp add: spec_area_sqft_def Let_def)



lemma js_round_of_int: "js_round (of_int z) = of_int z"
  by (simp add: js_round_def)

lemma spec_area_sqft_is_int: "\<exists>z. spec_area_sqft a oldPix newPix = of_int z \<and> 10 \<le> z"
proof -
  let ?v = "newPix * (a / (if oldPix = 0 then 1 else oldPix))"
  have "max 10 (js_round ?v) = of_int (max 10 \<lfloor>?v + 1 / 2\<rfloor>)"
    by (simp add: js_round_def max_def)
  then show ?thesis
    unfolding spec_area_sqft_def Let_def by (intro exI[of _ "max 10 \<lfloor>?v + 1 / 2\<rfloor>"]) simp
qed

lemma spec_area_sqft_same_polygon:
  "spec_area_sqft a pix pix = (if pix = 0 then 10 else max 10 (js_round a))"
proof (cases "pix = 0")
  case True
  have "js_round 0 = 0" by (simp add: js_round_def)
  with True show ?thesis by (simp add: spec_area_sqft_def)
next
  case False
  then show ?thesis by (simp add: spec_area_sqft_def)
qed

lemma spec_area_sqft_stable:
  "spec_area_sqft (spec_area_sqft a oldPix newPix) newPix newPix = spec_area_sqft a oldPix newPix"
proof -
  obtain z where z: "spec_area_sqft a oldPix newPix = of_int z" "10 \<le> z"
    using spec_area_sqft_is_int by blast
  show ?thesis
  proof (cases "newPix = 0")
    case True
    have "js_round 0 = 0" by (simp add: js_round_def)
    with True have "spec_area_sqft a oldPix newPix = 10" by (simp add: spec_area_sqft_def)
    with True show ?thesis by (simp add: spec_area_sqft_same_polygon)
  next
    case False
    with z show ?thesis by (simp add: spec_area_sqft_same_polygon js_round_of_int)
  qed
qed

lemma js_round_near: "\<bar>js_round v - v\<bar> \<le> 1 / 2"
  unfolding js_round_def by linarith

lemma same_position_within_rounding:
  assumes "19 / 2 \<le> a"
  shows "\<bar>max 10 (js_round a) - a\<bar> \<le> 1 / 2"
proof (cases "a \<le> 10")
  case True
  then have "js_round a \<le> 10" using js_round_mono[of a 10] by (simp add: js_round_10)
  then have "max 10 (js_round a) = 10" by simp
  with assms True show ?thesis by simp
next
  case False
  then have "10 \<le> js_round a" using js_round_mono[of 10 a] by (simp add: js_round_10)
  then have "max 10 (js_round a) = js_round a" by simp
  then show ?thesis using js_round_near[of a] by simp
qed

lemma sum_list_update_real:
  "k < length as \<Longrightarrow> sum_list (as[k := b]) = sum_list as - as ! k + (b::real)"
  by (induction as arbitrary: k) (auto split: nat.splits)

lemma jsum_update:
  assumes "map area_sqft rs = map Fin as" "k < length rs" "area_sqft (rs ! k) = Fin a"
  shows "jsum (map area_sqft (rs[k := r\<lparr>area_sqft := Fin b\<rparr>])) = Fin (sum_list as - a + b)"
proof -
  have len: "length as = length rs" using assms(1) by (metis length_map)
  have ak: "as ! k = a"
    using assms len by (metis jsnum.inject nth_map)
  have "map area_sqft (rs[k := r\<lparr>area_sqft := Fin b\<rparr>]) = map Fin (as[k := b])"
    using assms(1) by (simp add: map_update)
  moreover have "sum_list (as[k := b]) = sum_list as - a + b"
    using len assms(2) ak by (simp add: sum_list_update_real)
  ultimately show ?thesis by (simp add: jsum_Fin)
qed

lemma example_findIndex: "findIndex [example_room] (Fin 0) = Some 0"
  by (simp add: findIndex_def strict_eq_def)

lemma example_polygon:
  "polygon example_room = fin_polygon [(0, 0), (100, 0), (100, 100), (0, 100)]"
  by (simp add: example_room_def)

lemma shoelace_example_square: "shoelace_area [(0, 0), (100, 0), (100, 100), (0, 100)] = 10000"
  using shoelace_rectangle[of 0 0 100 100] by simp

text \<open>
  Claim C2 (amended). When the room identifier matches no room of the list (neither a
  room's \<open>id\<close> nor a room's position equals it), \<open>handleDragVertex\<close> is a no-op: it
  returns the room list it was given and emits no snapshot. The vertex index is not
  checked against the polygon; the counterexample below shows an out-of-range write.
\<close>

theorem unknown_room_is_noop:
  assumes "\<forall>k<length rs. \<not> room_matches rs roomId k"
  shows "handleDragVertex md rs roomId vertexIndex newPos = Inr (rs, None)"
  using assms by (simp add: handleDragVertex_not_found findIndex_None)

text \<open>Witness for C2: room identifier 3 on a one-room list.\<close>

theorem unknown_room_is_noop_witness:
  "\<not> room_matches [example_room] (Fin 3) 0
   \<and> handleDragVertex example_metadata [example_room] (Fin 3) 0 (Fin 0, Fin 50)
       = Inr ([example_room], None)"
proof -
  have a: "\<not> room_matches [example_room] (Fin 3) 0"
    by (simp add: room_matches_def example_room_def id_matches_def strict_eq_def)
  then have "\<forall>k<length [example_room]. \<not> room_matches [example_room] (Fin 3) k"
    by simp
  from unknown_room_is_noop[OF this] a show ?thesis by simp
qed

text \<open>
  Counterexample to C2 as stated. Vertex index 4 is out of range for the four-point
  polygon of the sample room; the assignment \<open>newPolygon[4] = \<dots>\<close> extends the array, so
  the returned room has a five-point polygon and a snapshot is emitted.
\<close>

theorem out_of_range_index_extends_polygon:
  "length (polygon example_room) = 4
   \<and> handleDragVertex example_metadata [example_room] (Fin 0) 4 (Fin 0, Fin 50) =
     Inr ([example_room\<lparr>polygon :=
             fin_polygon [(0, 0), (100, 0), (100, 100), (0, 100), (0, 50)]\<rparr>],
          Some (example_metadata\<lparr>rooms := [example_room\<lparr>polygon :=
             fin_polygon [(0, 0), (100, 0), (100, 100), (0, 100), (0, 50)]\<rparr>]\<rparr>))"
proof -
  have s: "array_set (fin_polygon [(0, 0), (100, 0), (100, 100), (0, 100)]) 4 (Fin 0, Fin 50)
        = fin_polygon [(0, 0), (100, 0), (100, 100), (0, 100), (0, 50)]"
    by (simp add: array_set_def fin_polygon_def)
  have n: "None \<notin> set ((fin_polygon [(0, 0), (100, 0), (100, 100), (0, 100)])[4 := Some (Fin 0, Fin 50)])"
    by (rule no_undefined_fin)
  have a5: "shoelace_area [(0, 0), (100, 0), (100, 100), (0, 100), (0, 50)] = 10000"
    by (simp add: shoelace_area_def shoelace_term_def prev_index_def)
  have ar: "Math_round (Math_max (Fin 10) (jmul (Fin 10000)
      (jdiv (Fin 100) (or_else (Fin 10000) (Fin 1))))) = Fin 100"
    by (simp add: new_area_sqft_fin spec_area_sqft_def js_round_def)
  have t: "sum_area_sqft [example_room\<lparr>polygon :=
             fin_polygon [(0, 0), (100, 0), (100, 100), (0, 100), (0, 50)]\<rparr>] = Fin 100"
    by (simp add: sum_area_sqft_def example_room_def)
  have e: "example_room\<lparr>polygon := fin_polygon [(0, 0), (100, 0), (100, 100), (0, 100), (0, 50)],
             area_sqft := Fin 100\<rparr> = example_room\<lparr>polygon :=
             fin_polygon [(0, 0), (100, 0), (100, 100), (0, 100), (0, 50)]\<rparr>"
    by (simp add: example_room_def)
  have m: "example_metadata\<lparr>rooms := rs, total_area_sqft := Fin 100\<rparr> = example_metadata\<lparr>rooms := rs\<rparr>" for rs
    by (simp add: example_metadata_def)
  have l: "length (fin_polygon [(0, 0), (100, 0), (100, 100), (0, 100)]) = 4"
    by (simp add: fin_polygon_def)
  have ea: "area_sqft example_room = Fin 100" by (simp add: example_room_def)
  show ?thesis
    using n
    by (simp add: handleDragVertex_def example_findIndex Let_def example_polygon s
        calculatePolygonArea_fin a5 shoelace_example_square ar t e m l ea)
qed




























lemma exact_57_5: "(90 :: real) * (23 / 36) = 115 / 2" "js_round (115 / 2) = 58"
  by (simp_all add: js_round_def)



















lemma js_round_100: "js_round 100 = 100"
  using js_round_of_int[of 100] by simp






section \<open>Properties of the Viewport Fitter\<close>

lemma bbox_step_Fin:
  "bbox_step (Fin a, Fin b, Fin c, Fin d) (Fin x, Fin y) =
     (Fin (min a x), Fin (max b x), Fin (min c y), Fin (max d y))"
  by (auto simp: bbox_step_def jgt_def min_def max_def)

lemma bbox_step_init:
  "bbox_step (PInf, NInf, PInf, NInf) (Fin x, Fin y) = (Fin x, Fin x, Fin y, Fin y)"
  by (simp add: bbox_step_def jgt_def)

lemma foldl_bbox_Fin:
  "foldl (\<lambda>acc p. case p of None \<Rightarrow> acc | Some q \<Rightarrow> bbox_step acc q)
         (Fin a, Fin b, Fin c, Fin d) (fin_polygon vs) =
     (Fin (fold min (map fst vs) a), Fin (fold max (map fst vs) b),
      Fin (fold min (map snd vs) c), Fin (fold max (map snd vs) d))"
proof (induction vs arbitrary: a b c d)
  case Nil
  then show ?case by (simp add: fin_polygon_def)
next
  case (Cons v vs)
  obtain x y where v: "v = (x, y)" by (cases v) auto
  have "fin_polygon (v # vs) = Some (Fin x, Fin y) # fin_polygon vs"
    by (simp add: fin_polygon_def v)
  then show ?case
    using Cons.IH[of "min a x" "max b x" "min c y" "max d y"]
    by (simp add: bbox_step_Fin v min.commute max.commute)
qed

lemma fin_polygon_append: "fin_polygon (ps @ qs) = fin_polygon ps @ fin_polygon qs"
  by (simp add: fin_polygon_def)

lemma foldl_room_bbox_concat:
  "map polygon rs = map fin_polygon pss \<Longrightarrow>
   foldl room_bbox b rs =
     foldl (\<lambda>acc p. case p of None \<Rightarrow> acc | Some q \<Rightarrow> bbox_step acc q) b
       (fin_polygon (concat pss))"
proof (induction rs arbitrary: pss b)
  case Nil
  then show ?case by (simp add: fin_polygon_def)
next
  case (Cons r rs)
  then obtain ps pss' where p: "pss = ps # pss'" by (cases pss) auto
  with Cons.prems have "polygon r = fin_polygon ps" "map polygon rs = map fin_polygon pss'"
    by simp_all
  with Cons.IH[of pss'] p show ?case
    by (simp add: room_bbox_def fin_polygon_append)
qed

lemma rooms_bbox_fin:
  assumes "map polygon rs = map fin_polygon pss" and "concat pss \<noteq> []"
  shows "rooms_bbox rs =
     (case bbox_of (concat pss) of (minX, maxX, minY, maxY) \<Rightarrow>
        (Fin minX, Fin maxX, Fin minY, Fin maxY))"
proof -
  obtain v vs where vs: "concat pss = v # vs" using assms(2) by (cases "concat pss") auto
  obtain x y where v: "v = (x, y)" by (cases v) auto
  have "fin_polygon (v # vs) = Some (Fin x, Fin y) # fin_polygon vs"
    by (simp add: fin_polygon_def v)
  then have "rooms_bbox rs =
     (Fin (fold min (map fst vs) x), Fin (fold max (map fst vs) x),
      Fin (fold min (map snd vs) y), Fin (fold max (map snd vs) y))"
    unfolding rooms_bbox_def foldl_room_bbox_concat[OF assms(1)] vs
    by (simp add: bbox_step_init foldl_bbox_Fin)
  moreover have "bbox_of (v # vs) =
     (fold min (map fst vs) x, fold max (map fst vs) x,
      fold min (map snd vs) y, fold max (map snd vs) y)"
    unfolding bbox_of_def
    using Min.set_eq_fold[of x "map fst vs"] Max.set_eq_fold[of x "map fst vs"]
      Min.set_eq_fold[of y "map snd vs"] Max.set_eq_fold[of y "map snd vs"]
    by (simp add: v)
  ultimately show ?thesis by (simp add: vs)
qed

lemma autoScale_fin:
  assumes "map polygon rs = map fin_polygon pss" and "concat pss \<noteq> []" and "W \<noteq> 0"
    and "bbox_of (concat pss) = (minX, maxX, minY, maxY)"
  shows "autoScale rs \<lparr>width = Fin W, height = Fin H\<rparr> cfg =
     (let bw = maxX - minX; bh = maxY - minY;
          s = fit_scale W H (if bw = 0 then 1 else bw) (if bh = 0 then 1 else bh)
      in \<lparr>stage_scale = Fin s,
          stage_x = Fin ((W - bw * s) / 2 - minX * s),
          stage_y = Fin ((H - bh * s) / 2 - minY * s)\<rparr>)"
proof -
  have ne: "rs \<noteq> []" using assms(1,2) by auto
  have bb: "rooms_bbox rs = (Fin minX, Fin maxX, Fin minY, Fin maxY)"
    using rooms_bbox_fin[OF assms(1,2)] assms(4) by simp
  show ?thesis
    using ne assms(3)
    by (simp add: autoScale_def bb truthy_def jsub_def or_else_Fin_1 Math_min_Fin
        fit_scale_def Let_def)
qed




lemma handleDragVertex_length:
  "handleDragVertex md rs roomId vi p = Inr (rs', em) \<Longrightarrow> length rs' = length rs"
  by (auto simp: handleDragVertex_def Let_def split: option.splits if_splits)

lemma autoScale_depends_on_bbox:
  assumes "rooms_bbox rs' = rooms_bbox rs" and "length rs' = length rs"
  shows "autoScale rs' dims cfg = autoScale rs dims cfg"
  using assms by (simp add: autoScale_def)

lemma autoScale_settled: "autoScale rs dims (autoScale rs dims cfg) = autoScale rs dims cfg"
  by (simp add: autoScale_def Let_def split: prod.splits)

lemma drag_vertex_found:
  assumes "drag_vertex md st roomId vi p = Inr (st', Some snapshot)"
  shows "handleDragVertex md (st_rooms st) roomId vi p = Inr (st_rooms st', Some snapshot)
     \<and> st' = st\<lparr>st_rooms := st_rooms st',
          st_stageConfig := autoScale (st_rooms st') (st_dimensions st) (st_stageConfig st)\<rparr>"
  using assms
  by (auto simp: drag_vertex_def split: sum.splits prod.splits option.splits)

text \<open>
  Claim C1 (amended). A drag whose room identifier matches no room leaves the editor
  state, fit included, as it was. A drag that finds its room replaces the room list, and
  the auto-scaling effect, which depends on the room list and the viewport size, runs
  again: the fit after the edit is the fit of the edited room list in the unchanged
  viewport. It is the fit before the edit when the edit leaves the bounding box of all
  vertices unchanged.
\<close>

theorem drag_refits_edited_rooms:
  "(findIndex (st_rooms st) roomId = None \<longrightarrow>
      drag_vertex md st roomId vertexIndex newPos = Inr (st, None))
   \<and> (drag_vertex md st roomId vertexIndex newPos = Inr (st', Some snapshot) \<longrightarrow>
        st_rooms st' = rooms snapshot
        \<and> st_dimensions st' = st_dimensions st
        \<and> st_stageConfig st' =
            autoScale (st_rooms st') (st_dimensions st') (st_stageConfig st)
        \<and> (rooms_bbox (st_rooms st') = rooms_bbox (st_rooms st)
             \<and> st_stageConfig st = autoScale (st_rooms st) (st_dimensions st) cfg0
             \<longrightarrow> st_stageConfig st' = st_stageConfig st))"
proof (intro conjI impI)
  assume "findIndex (st_rooms st) roomId = None"
  then show "drag_vertex md st roomId vertexIndex newPos = Inr (st, None)"
    by (simp add: drag_vertex_def handleDragVertex_not_found)
next
  assume d: "drag_vertex md st roomId vertexIndex newPos = Inr (st', Some snapshot)"
  note f = drag_vertex_found[OF d]
  from f handleDragVertex_emitted show "st_rooms st' = rooms snapshot" by metis
  from f show dims: "st_dimensions st' = st_dimensions st"
    by (metis editor_state.select_convs(2) editor_state.surjective editor_state.update_convs(1,3))
  from f dims show cfg: "st_stageConfig st' =
      autoScale (st_rooms st') (st_dimensions st') (st_stageConfig st)"
    by (metis editor_state.select_convs(3) editor_state.surjective editor_state.update_convs(3))
  assume "rooms_bbox (st_rooms st') = rooms_bbox (st_rooms st)
      \<and> st_stageConfig st = autoScale (st_rooms st) (st_dimensions st) cfg0"
  then have b: "rooms_bbox (st_rooms st') = rooms_bbox (st_rooms st)"
    and s: "st_stageConfig st = autoScale (st_rooms st) (st_dimensions st) cfg0" by simp_all
  have l: "length (st_rooms st') = length (st_rooms st)"
    using f handleDragVertex_length by blast
  have "st_stageConfig st' = autoScale (st_rooms st) (st_dimensions st) (st_stageConfig st)"
    using cfg dims autoScale_depends_on_bbox[OF b l] by simp
  also have "\<dots> = st_stageConfig st"
    using s autoScale_settled by metis
  finally show "st_stageConfig st' = st_stageConfig st" .
qed

lemma example_state_settled:
  "autoScale (st_rooms example_state) (st_dimensions example_state) cfg =
     st_stageConfig example_state"
proof -
  have w1: "map polygon [example_room] = map fin_polygon [[(0, 0), (100, 0), (100, 100), (0, 100)]]"
    by (simp add: example_room_def)
  have w2: "concat [[(0 :: real, 0 :: real), (100, 0), (100, 100), (0, 100)]] \<noteq> []" by simp
  have w4: "bbox_of (concat [[(0, 0), (100, 0), (100, 100), (0, 100)]]) = (0, 100, 0, 100)"
    by (simp add: bbox_of_def)
  have s: "fit_scale 500 500 100 100 = 2"
    by (simp add: fit_scale_def Let_def)
  show ?thesis
    using autoScale_fin[OF w1 w2 _ w4, of 500 500 cfg]
    by (simp add: example_state_def Let_def s)
qed

lemma example_stretch_edit:
  "handleDragVertex example_metadata [example_room] (Fin 0) 2 (Fin 400, Fin 400) =
     Inr ([stretched_room],
          Some (example_metadata\<lparr>rooms := [stretched_room], total_area_sqft := Fin 400\<rparr>))"
proof -
  have h2: "polygon ([example_room] ! 0) = fin_polygon [(0, 0), (100, 0), (100, 100), (0, 100)]"
    by (simp add: example_polygon)
  have h3: "2 < length [(0 :: real, 0 :: real), (100, 0), (100, 100), (0, 100)]" by simp
  have h4: "area_sqft ([example_room] ! 0) = Fin 100" by (simp add: example_room_def)
  have c: "shoelace_area [(0, 0), (100, 0), (400, 400), (0, 100)] = 40000"
    by (simp add: shoelace_area_def shoelace_term_def prev_index_def)
  have u: "[(0 :: real, 0 :: real), (100, 0), (100, 100), (0, 100)][2 := (400, 400)]
           = [(0, 0), (100, 0), (400, 400), (0, 100)]"
    by (simp add: numeral_2_eq_2)
  have "js_round 400 = 400" using js_round_of_int[of 400] by simp
  then have v: "spec_area_sqft 100 10000 40000 = 400"
    by (simp add: spec_area_sqft_def)
  have t: "sum_area_sqft [stretched_room] = Fin 400"
    by (simp add: sum_area_sqft_def stretched_room_def)
  show ?thesis
    using handleDragVertex_valid[OF example_findIndex h2 h3 h4,
        where md = example_metadata and x = 400 and y = 400] t
    by (simp add: Let_def u c v shoelace_example_square stretched_room_def[symmetric])
qed

lemma stretched_fit:
  "autoScale [stretched_room] \<lparr>width = Fin 500, height = Fin 500\<rparr> cfg =
     \<lparr>stage_scale = Fin (21 / 20), stage_x = Fin 40, stage_y = Fin 40\<rparr>"
proof -
  have w1: "map polygon [stretched_room] = map fin_polygon [[(0, 0), (100, 0), (400, 400), (0, 100)]]"
    by (simp add: stretched_room_def)
  have w2: "concat [[(0 :: real, 0 :: real), (100, 0), (400, 400), (0, 100)]] \<noteq> []" by simp
  have w4: "bbox_of (concat [[(0, 0), (100, 0), (400, 400), (0, 100)]]) = (0, 400, 0, 400)"
    by (simp add: bbox_of_def)
  have s: "fit_scale 500 500 400 400 = 21 / 20"
    by (simp add: fit_scale_def Let_def)
  show ?thesis
    using autoScale_fin[OF w1 w2 _ w4, of 500 500 cfg]
    by (simp add: Let_def s)
qed

text \<open>
  Counterexample to C1 as stated. In a 500 by 500 viewport the sample square is shown at
  scale 2 with offsets 150; dragging its vertex 2 from \<open>(100, 100)\<close> to \<open>(400, 400)\<close>
  leaves the stage at scale 1.05 with offsets 40.
\<close>

theorem drag_changes_view_frame:
  "autoScale (st_rooms example_state) (st_dimensions example_state)
       (st_stageConfig example_state) = st_stageConfig example_state
   \<and> st_stageConfig example_state =
       \<lparr>stage_scale = Fin 2, stage_x = Fin 150, stage_y = Fin 150\<rparr>
   \<and> drag_vertex example_metadata example_state (Fin 0) 2 (Fin 400, Fin 400) =
       Inr (example_state\<lparr>st_rooms := [stretched_room],
              st_stageConfig :=
                \<lparr>stage_scale = Fin (21 / 20), stage_x = Fin 40, stage_y = Fin 40\<rparr>\<rparr>,
            Some (example_metadata\<lparr>rooms := [stretched_room], total_area_sqft := Fin 400\<rparr>))"
proof -
  have r: "st_rooms example_state = [example_room]"
    and d: "st_dimensions example_state = \<lparr>width = Fin 500, height = Fin 500\<rparr>"
    by (simp_all add: example_state_def)
  have "drag_vertex example_metadata example_state (Fin 0) 2 (Fin 400, Fin 400) =
       Inr (example_state\<lparr>st_rooms := [stretched_room],
              st_stageConfig :=
                \<lparr>stage_scale = Fin (21 / 20), stage_x = Fin 40, stage_y = Fin 40\<rparr>\<rparr>,
            Some (example_metadata\<lparr>rooms := [stretched_room], total_area_sqft := Fin 400\<rparr>))"
    by (simp add: drag_vertex_def r d example_stretch_edit stretched_fit)
  moreover have "st_stageConfig example_state =
       \<lparr>stage_scale = Fin 2, stage_x = Fin 150, stage_y = Fin 150\<rparr>"
    by (simp add: example_state_def)
  ultimately show ?thesis
    by (simp only: example_state_settled simp_thms)
qed

lemma example_identity_edit:
  "handleDragVertex example_metadata [example_room] (Fin 0) 0 (Fin 0, Fin 0) =
     Inr ([example_room], Some example_metadata)"
proof -
  have h2: "polygon ([example_room] ! 0) = fin_polygon [(0, 0), (100, 0), (100, 100), (0, 100)]"
    by (simp add: example_polygon)
  have h3: "0 < length [(0 :: real, 0 :: real), (100, 0), (100, 100), (0, 100)]" by simp
  have h4: "area_sqft ([example_room] ! 0) = Fin 100" by (simp add: example_room_def)
  have v: "spec_area_sqft 100 10000 10000 = 100"
    by (simp add: spec_area_sqft_same_polygon js_round_100)
  have r: "example_room\<lparr>polygon := fin_polygon [(0, 0), (100, 0), (100, 100), (0, 100)],
              area_sqft := Fin 100\<rparr> = example_room"
    by (simp add: example_room_def)
  have t: "sum_area_sqft [example_room] = Fin 100"
    by (simp add: sum_area_sqft_def example_room_def)
  have m: "example_metadata\<lparr>rooms := [example_room], total_area_sqft := Fin 100\<rparr> = example_metadata"
    by (simp add: example_metadata_def)
  show ?thesis
    using handleDragVertex_valid[OF example_findIndex h2 h3 h4,
        where md = example_metadata and x = 0 and y = 0]
    by (simp add: Let_def shoelace_example_square v r t m)
qed

text \<open>
  Witness for C1: an unknown room identifier, and a drag of vertex 0 onto its own position.
\<close>

theorem drag_refits_edited_rooms_witness:
  "findIndex (st_rooms example_state) (Fin 3) = None
   \<and> drag_vertex example_metadata example_state (Fin 3) 0 (Fin 0, Fin 0) = Inr (example_state, None)
   \<and> drag_vertex example_metadata example_state (Fin 0) 0 (Fin 0, Fin 0) =
       Inr (example_state, Some example_metadata)
   \<and> st_rooms example_state = rooms example_metadata
   \<and> st_stageConfig example_state =
       autoScale (st_rooms example_state) (st_dimensions example_state)
         (st_stageConfig example_state)"
proof -
  have n: "findIndex (st_rooms example_state) (Fin 3) = None"
    by (simp add: example_state_def findIndex_def example_room_def id_matches_def strict_eq_def)
  have r: "st_rooms example_state = [example_room]"
    by (simp add: example_state_def)
  have s: "example_state\<lparr>st_rooms := [example_room],
             st_stageConfig := st_stageConfig example_state\<rparr> = example_state"
    by (simp add: example_state_def)
  have e: "drag_vertex example_metadata example_state (Fin 0) 0 (Fin 0, Fin 0) =
       Inr (example_state, Some example_metadata)"
    using example_state_settled[of "st_stageConfig example_state"]
    by (simp add: drag_vertex_def r example_identity_edit s)
  have b: "st_stageConfig example_state =
       autoScale (st_rooms example_state) (st_dimensions example_state)
         (st_stageConfig example_state)"
    by (simp add: example_state_settled)
  from drag_refits_edited_rooms[of example_state "Fin 3" example_metadata 0 "(Fin 0, Fin 0)"
      example_state example_metadata "st_stageConfig example_state"] n
  have a: "drag_vertex example_metadata example_state (Fin 3) 0 (Fin 0, Fin 0) = Inr (example_state, None)"
    by simp
  from drag_refits_edited_rooms[of example_state "Fin 0" example_metadata 0 "(Fin 0, Fin 0)"
      example_state example_metadata "st_stageConfig example_state"] e
  have c: "st_rooms example_state = rooms example_metadata"
    by simp
  from n a e c b show ?thesis by simp
qed

section \<open>Properties of the 3D Projector\<close>

lemma roomOffset_vy:
  "vy (roomOffset offset i r) =
     jmul (case floor_r r of None \<Rightarrow> Fin 0
           | Some f \<Rightarrow> if truthy f then jsub f (Fin 1) else Fin 0) wallHeight"
  by (simp add: roomOffset_def Let_def)

text \<open>
  Claim C9 (not met by the code). Every shell is extruded by the wall height 8, and
  \<open>FloorPlan3D\<close> computes the vertical offset \<open>(floor - 1) * 8\<close> into \<open>roomOffset.y\<close>:
  0 for floor 1 and 8 for floor 2. The \<open>Room\<close> component places its group at
  \<open>[offset.x, 0, offset.z]\<close>, so the shell of every room, whatever its floor, sits at
  height 0: the shells of a floor-1 room and a floor-2 room differ by 0, not by 8.
\<close>

theorem shell_vertical_offset_ignores_floor:
  "shell_vertical_offset i offset r = Fin 0
   \<and> Room_extrude_depth = Fin 8
   \<and> vy (roomOffset offset 0 (r\<lparr>floor_r := Some (Fin 1)\<rparr>)) = Fin 0
   \<and> vy (roomOffset offset 1 (r\<lparr>floor_r := Some (Fin 2)\<rparr>)) = Fin 8
   \<and> shell_vertical_offset 0 offset (r\<lparr>floor_r := Some (Fin 1)\<rparr>) = Fin 0
   \<and> shell_vertical_offset 1 offset (r\<lparr>floor_r := Some (Fin 2)\<rparr>) = Fin 0"
  by (simp add: shell_vertical_offset_def Room_group_position_def Room_extrude_depth_def
      roomOffset_vy wallHeight_def truthy_def jsub_def)

end
